theory Spec2Isabelle
  imports Main "HOL-Library.Word" "HOL-Library.Char_ord" "HOL-Library.List_Lexorder"
    "HOL-Library.Multiset"
begin

unbundle bit_operations_syntax

section \<open>Data model of cache.go\<close>

text \<open>
  Go strings and byte slices are both sequences of bytes; both are modelled as lists of
  \<^typ>\<open>char\<close> (an 8-bit value), so that \<^verbatim>\<open>[]byte(s)\<close> is the identity.
  A \<^verbatim>\<open>time.Time\<close> is modelled as the instant it denotes: an integer count of
  nanoseconds since the zero time; a \<^verbatim>\<open>time.Duration\<close> is a count of nanoseconds.
  A Go map \<^verbatim>\<open>map[string][]string\<close> (\<^verbatim>\<open>url.Values\<close>, \<^verbatim>\<open>http.Header\<close>) is an
  association list with distinct keys.
\<close>

type_synonym bytes = "char list"
type_synonym time = int
type_synonym Duration = int
type_synonym Values = "(string \<times> string list) list"
type_synonym Header = "(string \<times> string list) list"

text \<open>\<^verbatim>\<open>type Response struct\<close>; \<^verbatim>\<open>Frequency int\<close> is a machine integer, of 64 bits
  on the usual platforms.\<close>

record Response =
  Value :: bytes
  Header :: Header
  Expiration :: time
  LastAccess :: time
  Frequency :: "64 word"

text \<open>\<^verbatim>\<open>var r Response\<close>: the zero value of the struct.\<close>

definition zeroResponse :: Response where
  "zeroResponse = \<lparr>Value = [], Header = [], Expiration = 0, LastAccess = 0, Frequency = 0\<rparr>"

text \<open>\<^verbatim>\<open>Time.After\<close> and \<^verbatim>\<open>Time.Add\<close> on instants.\<close>

definition After :: "time \<Rightarrow> time \<Rightarrow> bool" where
  "After t u = (u < t)"

definition Add :: "time \<Rightarrow> Duration \<Rightarrow> time" where
  "Add t d = t + d"

section \<open>The parts of net/url and strings that cache.go calls\<close>

text \<open>\<^verbatim>\<open>strings.Join\<close>.\<close>

fun Join :: "string list \<Rightarrow> string \<Rightarrow> string" where
  "Join [] sep = []"
| "Join [x] sep = x"
| "Join (x # y # xs) sep = x @ sep @ Join (y # xs) sep"

text \<open>
  \<^verbatim>\<open>strings.Cut\<close> with a one-byte separator: the text before and after the first
  occurrence of the separator; the whole string and the empty string if there is none.
\<close>

definition Cut :: "string \<Rightarrow> char \<Rightarrow> string \<times> string" where
  "Cut s sep = (takeWhile (\<lambda>c. c \<noteq> sep) s, drop 1 (dropWhile (\<lambda>c. c \<noteq> sep) s))"

text \<open>The byte \<open>c\<close> lies between two bytes, bounds included.\<close>

definition in_range :: "char \<Rightarrow> char \<Rightarrow> char \<Rightarrow> bool" where
  "in_range lo hi c = (lo \<le> c \<and> c \<le> hi)"

text \<open>\<^verbatim>\<open>url.shouldEscape\<close> in mode \<^verbatim>\<open>encodeQueryComponent\<close>: everything is escaped
  but letters, digits and the four unreserved marks.\<close>

definition shouldEscape :: "char \<Rightarrow> bool" where
  "shouldEscape c =
     (if in_range CHR ''a'' CHR ''z'' c \<or> in_range CHR ''A'' CHR ''Z'' c
          \<or> in_range CHR ''0'' CHR ''9'' c then False
      else if c = CHR ''-'' \<or> c = CHR ''_'' \<or> c = CHR ''.'' \<or> c = CHR ''~'' then False
      else True)"

definition upperhex :: string where
  "upperhex = ''0123456789ABCDEF''"

definition ishex :: "char \<Rightarrow> bool" where
  "ishex c = (in_range CHR ''0'' CHR ''9'' c \<or> in_range CHR ''a'' CHR ''f'' c
     \<or> in_range CHR ''A'' CHR ''F'' c)"

definition unhex :: "char \<Rightarrow> nat" where
  "unhex c =
     (if in_range CHR ''0'' CHR ''9'' c then of_char c - of_char CHR ''0''
      else if in_range CHR ''a'' CHR ''f'' c then of_char c - of_char CHR ''a'' + 10
      else if in_range CHR ''A'' CHR ''F'' c then of_char c - of_char CHR ''A'' + 10
      else 0)"

text \<open>\<^verbatim>\<open>url.QueryEscape\<close>: a space becomes \<^verbatim>\<open>+\<close>, an escaped byte becomes
  \<^verbatim>\<open>%XX\<close> in upper-case hexadecimal.\<close>

fun QueryEscape :: "string \<Rightarrow> string" where
  "QueryEscape [] = []"
| "QueryEscape (c # s) =
     (if c = CHR '' '' then CHR ''+'' # QueryEscape s
      else if shouldEscape c
        then CHR ''%'' # upperhex ! (of_char c div 16) # upperhex ! (of_char c mod 16)
               # QueryEscape s
      else c # QueryEscape s)"

text \<open>\<^verbatim>\<open>url.QueryUnescape\<close>: the error (a \<^verbatim>\<open>%\<close> not followed by two hexadecimal
  digits) is \<open>None\<close>.\<close>

fun QueryUnescape :: "string \<Rightarrow> string option" where
  "QueryUnescape [] = Some []"
| "QueryUnescape (c # s) =
     (if c = CHR ''%'' then
        (case s of
           a # b # t \<Rightarrow>
             (if ishex a \<and> ishex b
              then map_option ((#) (char_of (unhex a * 16 + unhex b))) (QueryUnescape t)
              else None)
         | _ \<Rightarrow> None)
      else if c = CHR ''+'' then map_option ((#) CHR '' '') (QueryUnescape s)
      else map_option ((#) c) (QueryUnescape s))"

text \<open>\<^verbatim>\<open>m[key] = append(m[key], value)\<close> on the association list.\<close>

fun add_value :: "string \<Rightarrow> string \<Rightarrow> Values \<Rightarrow> Values" where
  "add_value k v [] = [(k, [v])]"
| "add_value k v ((k', vs) # m) =
     (if k = k' then (k', vs @ [v]) # m else (k', vs) # add_value k v m)"

text \<open>\<^verbatim>\<open>m[key]\<close>: the values of a key, empty when the key is absent; \<^verbatim>\<open>_, ok := m[key]\<close>;
  \<^verbatim>\<open>delete(m, key)\<close>.\<close>

definition values_of :: "Values \<Rightarrow> string \<Rightarrow> string list" where
  "values_of m k = (case map_of m k of None \<Rightarrow> [] | Some vs \<Rightarrow> vs)"

definition has_key :: "Values \<Rightarrow> string \<Rightarrow> bool" where
  "has_key m k = (map_of m k \<noteq> None)"

definition delete_key :: "string \<Rightarrow> Values \<Rightarrow> Values" where
  "delete_key k m = filter (\<lambda>p. fst p \<noteq> k) m"

text \<open>
  One round of the loop of \<^verbatim>\<open>url.parseQuery\<close> on the segment before the next
  \<^verbatim>\<open>&\<close>: a segment holding a semicolon, an empty segment and a segment whose key or
  value does not unescape are skipped.
\<close>

definition parsePair :: "string \<Rightarrow> (string \<times> string) option" where
  "parsePair key =
     (if CHR '';'' \<in> set key then None
      else if key = [] then None
      else (case QueryUnescape (fst (Cut key CHR ''='')) of
              None \<Rightarrow> None
            | Some k \<Rightarrow>
                (case QueryUnescape (snd (Cut key CHR ''='')) of
                   None \<Rightarrow> None
                 | Some v \<Rightarrow> Some (k, v))))"

function parseQuery_loop :: "Values \<Rightarrow> string \<Rightarrow> Values" where
  "parseQuery_loop m query =
     (if query = [] then m
      else (case parsePair (fst (Cut query CHR ''&'')) of
              None \<Rightarrow> parseQuery_loop m (snd (Cut query CHR ''&''))
            | Some (k, v) \<Rightarrow> parseQuery_loop (add_value k v m) (snd (Cut query CHR ''&''))))"
  by pat_completeness auto
termination
proof (relation "measure (\<lambda>(m, query). length query)")
  show "wf (measure (\<lambda>(m, query). length query))"
    by simp
next
  fix m :: Values and query :: string
  assume "query \<noteq> []"
  then have "length (snd (Cut query CHR ''&'')) < length query"
    by (cases query) (auto simp: Cut_def less_Suc_eq_le length_dropWhile_le
        intro: le_trans [OF diff_le_self])
  then show "((m, snd (Cut query CHR ''&'')), (m, query)) \<in> measure (\<lambda>(m, query). length query)"
    by simp
next
  fix m :: Values and query :: string and x2 :: "string \<times> string" and k v :: string
  assume "query \<noteq> []"
  then have "length (snd (Cut query CHR ''&'')) < length query"
    by (cases query) (auto simp: Cut_def less_Suc_eq_le length_dropWhile_le
        intro: le_trans [OF diff_le_self])
  then show "((add_value k v m, snd (Cut query CHR ''&'')), (m, query))
      \<in> measure (\<lambda>(m, query). length query)"
    by simp
qed

declare parseQuery_loop.simps [simp del]

text \<open>
  The limit of \<^verbatim>\<open>url.parseQuery\<close> on the number of parameters
  (\<^verbatim>\<open>urlParamsWithinMax\<close>, with the \<^verbatim>\<open>GODEBUG\<close> setting \<^verbatim>\<open>urlmaxqueryparams\<close> left
  unset): at most 10000.
\<close>

definition urlParamsWithinMax :: "nat \<Rightarrow> bool" where
  "urlParamsWithinMax params = (params \<le> 10000)"

text \<open>
  \<^verbatim>\<open>url.parseQuery\<close>: the number of segments is \<^verbatim>\<open>strings.Count(query, "&") + 1\<close>; beyond
  the limit the function returns its error before the loop, the map left as it was, so
  that \<^verbatim>\<open>URL.Query\<close> gives the empty map; within the limit the loop runs.
\<close>

definition parseQuery :: "Values \<Rightarrow> string \<Rightarrow> Values" where
  "parseQuery m query =
     (if \<not> urlParamsWithinMax (count_list query CHR ''&'' + 1) then m
      else parseQuery_loop m query)"

text \<open>\<^verbatim>\<open>URL.Query\<close>: \<^verbatim>\<open>ParseQuery\<close> on a fresh map, the error dropped.\<close>

text \<open>Of \<^verbatim>\<open>url.URL\<close>, the fields of the request URI of a server request: the path, as
  \<^verbatim>\<open>URL.String\<close> renders it, \<^verbatim>\<open>ForceQuery\<close> and \<^verbatim>\<open>RawQuery\<close>.\<close>

record URL =
  Path :: string
  ForceQuery :: bool
  RawQuery :: string

text \<open>\<^verbatim>\<open>URL.String\<close> on such a URL: the path, then \<^verbatim>\<open>?\<close> and the raw query when
  \<^verbatim>\<open>ForceQuery\<close> is set or the raw query is not empty.\<close>

definition URL_String :: "URL \<Rightarrow> string" where
  "URL_String u = Path u @ (if ForceQuery u \<or> RawQuery u \<noteq> [] then ''?'' @ RawQuery u else [])"

definition Query :: "URL \<Rightarrow> Values" where
  "Query u = parseQuery [] (RawQuery u)"

text \<open>\<^verbatim>\<open>Values.Encode\<close>: the keys sorted, each value of a key written as
  \<^verbatim>\<open>key=value\<close>, both escaped, the pairs separated by \<^verbatim>\<open>&\<close>.\<close>

definition Encode :: "Values \<Rightarrow> string" where
  "Encode v =
     Join (concat (map (\<lambda>k. map (\<lambda>x. QueryEscape k @ ''='' @ QueryEscape x) (values_of v k))
                       (sort (map fst v)))) ''&''"

text \<open>\<^verbatim>\<open>sortURLParams\<close>: the values of each parameter sorted with \<^verbatim>\<open>param[i] < param[j]\<close>
  (bytewise order of Go strings), the query string rebuilt by \<^verbatim>\<open>Encode\<close>.\<close>

definition sortURLParams :: "URL \<Rightarrow> URL" where
  "sortURLParams u = u\<lparr>RawQuery := Encode (map (\<lambda>(k, vs). (k, sort vs)) (Query u))\<rparr>"

section \<open>Requests, the client and the cache key\<close>

text \<open>
  Of \<^verbatim>\<open>http.Request\<close> the middleware reads the method, the URL and, through
  \<^verbatim>\<open>r.Header.Values\<close>, the values of a header; the body is read by the key function
  only: it is absent (\<^verbatim>\<open>nil\<close>), fails to read, or reads as some bytes.
\<close>

datatype body = NoBody | ReadError | Readable bytes

record Request =
  Method :: string
  URL :: URL
  HeaderValues :: "string \<Rightarrow> string list"
  Body :: body

text \<open>\<^verbatim>\<open>type Client struct\<close> as \<^verbatim>\<open>NewClient\<close> returns it. The adapter is the mutable
  collaborator and is part of the \<open>world\<close> below; \<^verbatim>\<open>generateKey\<close> is the configured key
  function.\<close>

record Client =
  ttl :: Duration
  refreshKey :: string
  methods :: "string list"
  writeExpiresHeader :: bool
  vary :: "string list"
  generateKey :: "Request \<Rightarrow> bytes"

fun cacheableMethod_loop :: "string list \<Rightarrow> string \<Rightarrow> bool" where
  "cacheableMethod_loop [] method = False"
| "cacheableMethod_loop (m # ms) method =
     (if method = m then True else cacheableMethod_loop ms method)"

definition cacheableMethod :: "Client \<Rightarrow> string \<Rightarrow> bool" where
  "cacheableMethod c method = cacheableMethod_loop (methods c) method"

text \<open>\<^verbatim>\<open>DefaultGenerateKey\<close>; the body it puts back reads as the same bytes.\<close>

definition DefaultGenerateKey :: "Request \<Rightarrow> bytes" where
  "DefaultGenerateKey r =
     (if Method r = ''POST'' \<and> Body r \<noteq> NoBody
      then (case Body r of
              ReadError \<Rightarrow> []
            | Readable b \<Rightarrow> URL_String (URL r) @ b
            | NoBody \<Rightarrow> URL_String (URL r))
      else URL_String (URL r))"

text \<open>
  \<^verbatim>\<open>NewClient\<close> and the options. While the options run, the \<^verbatim>\<open>Client\<close> struct can
  hold \<^verbatim>\<open>nil\<close> for the adapter, the methods and the key function; that state is the
  record \<open>draft\<close>, starting from the zero value \<^verbatim>\<open>&Client{}\<close>. An option is given
  the adapter, slice or function it is called with, \<^verbatim>\<open>nil\<close> included.
\<close>

datatype Adapter = NilAdapter | AnAdapter

datatype error =
  AdapterNotSet
| TTLNotSet
| InvalidTTL Duration
| InvalidMethod string

datatype ClientOption =
  ClientWithAdapter Adapter
| ClientWithTTL Duration
| ClientWithRefreshKey string
| ClientWithMethods "string list option"
| ClientWithGenerateKey "(Request \<Rightarrow> bytes) option"
| ClientWithVary "string list"
| ClientWithExpiresHeader

record draft =
  d_adapter :: Adapter
  d_ttl :: Duration
  d_refreshKey :: string
  d_methods :: "string list option"
  d_writeExpiresHeader :: bool
  d_vary :: "string list"
  d_generateKey :: "(Request \<Rightarrow> bytes) option"

definition zero_draft :: draft where
  "zero_draft = \<lparr>d_adapter = NilAdapter, d_ttl = 0, d_refreshKey = [], d_methods = None,
     d_writeExpiresHeader = False, d_vary = [], d_generateKey = None\<rparr>"

text \<open>The loop of \<^verbatim>\<open>ClientWithMethods\<close>: the first method that is neither \<^verbatim>\<open>GET\<close> nor
  \<^verbatim>\<open>POST\<close>, if any.\<close>

fun invalid_method :: "string list \<Rightarrow> string option" where
  "invalid_method [] = None"
| "invalid_method (method # ms) =
     (if method \<noteq> ''GET'' \<and> method \<noteq> ''POST'' then Some method else invalid_method ms)"

fun apply_option :: "ClientOption \<Rightarrow> draft \<Rightarrow> error + draft" where
  "apply_option (ClientWithAdapter a) c = Inr (c\<lparr>d_adapter := a\<rparr>)"
| "apply_option (ClientWithTTL t) c = (if t < 1 then Inl (InvalidTTL t) else Inr (c\<lparr>d_ttl := t\<rparr>))"
| "apply_option (ClientWithRefreshKey k) c = Inr (c\<lparr>d_refreshKey := k\<rparr>)"
| "apply_option (ClientWithMethods ms) c =
     (case invalid_method (case ms of None \<Rightarrow> [] | Some l \<Rightarrow> l) of
        Some method \<Rightarrow> Inl (InvalidMethod method)
      | None \<Rightarrow> Inr (c\<lparr>d_methods := ms\<rparr>))"
| "apply_option (ClientWithGenerateKey fn) c = Inr (c\<lparr>d_generateKey := fn\<rparr>)"
| "apply_option (ClientWithVary headers) c = Inr (c\<lparr>d_vary := headers\<rparr>)"
| "apply_option ClientWithExpiresHeader c = Inr (c\<lparr>d_writeExpiresHeader := True\<rparr>)"

fun apply_options :: "ClientOption list \<Rightarrow> draft \<Rightarrow> error + draft" where
  "apply_options [] c = Inr c"
| "apply_options (opt # opts) c =
     (case apply_option opt c of Inl err \<Rightarrow> Inl err | Inr c' \<Rightarrow> apply_options opts c')"

definition NewClient :: "ClientOption list \<Rightarrow> error + Client" where
  "NewClient opts =
     (case apply_options opts zero_draft of
        Inl err \<Rightarrow> Inl err
      | Inr c \<Rightarrow>
          if d_adapter c = NilAdapter then Inl AdapterNotSet
          else if d_ttl c < 1 then Inl TTLNotSet
          else Inr \<lparr>ttl = d_ttl c, refreshKey = d_refreshKey c,
                  methods = (case d_methods c of None \<Rightarrow> [''GET''] | Some ms \<Rightarrow> ms),
                  writeExpiresHeader = d_writeExpiresHeader c, vary = d_vary c,
                  generateKey = (case d_generateKey c of None \<Rightarrow> DefaultGenerateKey
                                 | Some fn \<Rightarrow> fn)\<rparr>)"

text \<open>\<^verbatim>\<open>hash/fnv\<close>, 64-bit FNV-1a: \<^verbatim>\<open>New64a\<close> is the offset basis, \<^verbatim>\<open>Write\<close> xors
  each byte in and multiplies by the prime, modulo \<open>2^64\<close>.\<close>

definition offset64 :: "64 word" where
  "offset64 = 14695981039346656037"

definition prime64 :: "64 word" where
  "prime64 = 1099511628211"

definition fnv_Write :: "64 word \<Rightarrow> bytes \<Rightarrow> 64 word" where
  "fnv_Write h data = foldl (\<lambda>h c. (h XOR of_char c) * prime64) h data"

text \<open>\<^verbatim>\<open>Client.hash\<close>.\<close>

definition hash :: "Client \<Rightarrow> Request \<Rightarrow> 64 word" where
  "hash c r =
     foldl (\<lambda>h header.
              (let value = Join (HeaderValues r header) [] in
               if value \<noteq> [] then fnv_Write h value else h))
       (fnv_Write offset64 (generateKey c r)) (vary c)"

section \<open>The collaborators: library codec, adapter, clock, response writers\<close>

text \<open>
  The library functions whose results the middleware only passes on are parameters:
  \<^verbatim>\<open>gob\<close> encoding of a \<^verbatim>\<open>Response\<close> (\<open>gobEncode\<close>), \<^verbatim>\<open>dec.Decode(&r)\<close> as the
  value of \<^verbatim>\<open>r\<close> after the call given the bytes and the value before (\<open>gobDecode\<close>; the
  error is dropped by the caller), \<^verbatim>\<open>textproto.CanonicalMIMEHeaderKey\<close> and the
  \<^verbatim>\<open>http.TimeFormat\<close> rendering of an instant.
\<close>

record Lib =
  gobEncode :: "Response \<Rightarrow> bytes"
  gobDecode :: "bytes \<Rightarrow> Response \<Rightarrow> Response"
  CanonicalHeaderKey :: "string \<Rightarrow> string"
  FormatHTTP :: "time \<Rightarrow> string"

text \<open>\<^verbatim>\<open>BytesToResponse\<close> and \<^verbatim>\<open>Response.Bytes\<close>.\<close>

definition BytesToResponse :: "Lib \<Rightarrow> bytes \<Rightarrow> Response" where
  "BytesToResponse lib b = gobDecode lib b zeroResponse"

definition Bytes :: "Lib \<Rightarrow> Response \<Rightarrow> bytes" where
  "Bytes lib r = gobEncode lib r"

text \<open>
  Modelled from the spec: the implementation of \<^verbatim>\<open>interface Adapter\<close> is outside the
  source. The adapter is a store from keys to the bytes and expiration last set, where
  \<^verbatim>\<open>Release\<close> removes the entry of a key and is a no-op on an absent one; every call the
  middleware makes is also recorded, oldest first. The clock yields the successive
  readings of \<^verbatim>\<open>time.Now()\<close>.
\<close>

datatype adapter_call =
  CallGet "64 word"
| CallSet "64 word" bytes time
| CallRelease "64 word"

record world =
  store :: "64 word \<Rightarrow> (bytes \<times> time) option"
  calls :: "adapter_call list"
  clock :: "nat \<Rightarrow> time"
  ticks :: nat

definition adapter_Get :: "world \<Rightarrow> 64 word \<Rightarrow> (bytes \<times> bool) \<times> world" where
  "adapter_Get s key =
     ((case store s key of None \<Rightarrow> ([], False) | Some (b, e) \<Rightarrow> (b, True)),
      s\<lparr>calls := calls s @ [CallGet key]\<rparr>)"

definition adapter_Set :: "world \<Rightarrow> 64 word \<Rightarrow> bytes \<Rightarrow> time \<Rightarrow> world" where
  "adapter_Set s key response expiration =
     s\<lparr>store := (store s)(key \<mapsto> (response, expiration)),
       calls := calls s @ [CallSet key response expiration]\<rparr>"

definition adapter_Release :: "world \<Rightarrow> 64 word \<Rightarrow> world" where
  "adapter_Release s key =
     s\<lparr>store := (store s)(key := None), calls := calls s @ [CallRelease key]\<rparr>"

definition time_Now :: "world \<Rightarrow> time \<times> world" where
  "time_Now s = (clock s (ticks s), s\<lparr>ticks := Suc (ticks s)\<rparr>)"

text \<open>
  The outbound \<^verbatim>\<open>http.ResponseWriter\<close>: its header map and what it was told, the status
  codes passed to \<^verbatim>\<open>WriteHeader\<close> and the chunks passed to \<^verbatim>\<open>Write\<close>, in call order.
\<close>

record ResponseWriter =
  header :: Header
  statusCodes :: "int list"
  written :: "bytes list"

fun set_key :: "string \<Rightarrow> string list \<Rightarrow> Header \<Rightarrow> Header" where
  "set_key k vs [] = [(k, vs)]"
| "set_key k vs ((k', vs') # h) = (if k = k' then (k', vs) # h else (k', vs') # set_key k vs h)"

text \<open>\<^verbatim>\<open>Header.Set\<close> and \<^verbatim>\<open>Header.Add\<close> on the writer's header map.\<close>

definition Header_Set :: "Lib \<Rightarrow> ResponseWriter \<Rightarrow> string \<Rightarrow> string \<Rightarrow> ResponseWriter" where
  "Header_Set lib w k v = w\<lparr>header := set_key (CanonicalHeaderKey lib k) [v] (header w)\<rparr>"

definition Header_Add :: "Lib \<Rightarrow> ResponseWriter \<Rightarrow> string \<Rightarrow> string \<Rightarrow> ResponseWriter" where
  "Header_Add lib w k v = w\<lparr>header := add_value (CanonicalHeaderKey lib k) v (header w)\<rparr>"

definition w_WriteHeader :: "ResponseWriter \<Rightarrow> int \<Rightarrow> ResponseWriter" where
  "w_WriteHeader w code = w\<lparr>statusCodes := statusCodes w @ [code]\<rparr>"

definition w_Write :: "ResponseWriter \<Rightarrow> bytes \<Rightarrow> ResponseWriter" where
  "w_Write w b = w\<lparr>written := written w @ [b]\<rparr>"

text \<open>\<^verbatim>\<open>type responseWriter struct\<close>: the embedded writer, the status code and the body.\<close>

record responseWriter =
  inner :: ResponseWriter
  statusCode :: int
  body :: bytes

text \<open>\<^verbatim>\<open>responseWriter.WriteHeader\<close> and \<^verbatim>\<open>responseWriter.Write\<close>.\<close>

definition rw_WriteHeader :: "responseWriter \<Rightarrow> int \<Rightarrow> responseWriter" where
  "rw_WriteHeader w code = w\<lparr>statusCode := code, inner := w_WriteHeader (inner w) code\<rparr>"

definition rw_Write :: "responseWriter \<Rightarrow> bytes \<Rightarrow> responseWriter" where
  "rw_Write w b = w\<lparr>body := b, inner := w_Write (inner w) b\<rparr>"

text \<open>
  A handler is what it does to the writer it is given, as a function of the request:
  a sequence of \<^verbatim>\<open>w.WriteHeader(code)\<close>, \<^verbatim>\<open>w.Write(b)\<close>, \<^verbatim>\<open>w.Header().Set(k, v)\<close> and
  \<^verbatim>\<open>w.Header().Add(k, v)\<close>. \<open>ServeHTTP\<close> runs it on the outbound writer,
  \<open>ServeHTTP_rw\<close> on the capturing wrapper, whose \<^verbatim>\<open>Header\<close> method is the embedded
  writer's.
\<close>

datatype action =
  DoWriteHeader int
| DoWrite bytes
| DoHeaderSet string string
| DoHeaderAdd string string

type_synonym Handler = "Request \<Rightarrow> action list"

fun perform :: "Lib \<Rightarrow> ResponseWriter \<Rightarrow> action \<Rightarrow> ResponseWriter" where
  "perform lib w (DoWriteHeader code) = w_WriteHeader w code"
| "perform lib w (DoWrite b) = w_Write w b"
| "perform lib w (DoHeaderSet k v) = Header_Set lib w k v"
| "perform lib w (DoHeaderAdd k v) = Header_Add lib w k v"

fun perform_rw :: "Lib \<Rightarrow> responseWriter \<Rightarrow> action \<Rightarrow> responseWriter" where
  "perform_rw lib w (DoWriteHeader code) = rw_WriteHeader w code"
| "perform_rw lib w (DoWrite b) = rw_Write w b"
| "perform_rw lib w (DoHeaderSet k v) = w\<lparr>inner := Header_Set lib (inner w) k v\<rparr>"
| "perform_rw lib w (DoHeaderAdd k v) = w\<lparr>inner := Header_Add lib (inner w) k v\<rparr>"

definition ServeHTTP :: "Lib \<Rightarrow> Handler \<Rightarrow> ResponseWriter \<Rightarrow> Request \<Rightarrow> ResponseWriter" where
  "ServeHTTP lib next w r = foldl (perform lib) w (next r)"

definition ServeHTTP_rw :: "Lib \<Rightarrow> Handler \<Rightarrow> responseWriter \<Rightarrow> Request \<Rightarrow> responseWriter" where
  "ServeHTTP_rw lib next w r = foldl (perform_rw lib) w (next r)"

section \<open>The middleware\<close>

datatype outcome = Bypassed | ServedFromCache | Forwarded

text \<open>
  The result of serving one request: the world and the outbound writer afterwards, the
  request as the middleware left it (the one the handler saw, when it ran), and which
  way the request went.
\<close>

record served =
  world_after :: world
  writer_after :: ResponseWriter
  request_after :: Request
  outcome_of :: outcome

text \<open>Lines 138 and 139 of \<^verbatim>\<open>Middleware\<close>: the handler runs on a fresh capturing
  wrapper around the outbound writer; the result is the wrapper when the handler returns.\<close>

definition capture :: "Lib \<Rightarrow> Handler \<Rightarrow> ResponseWriter \<Rightarrow> Request \<Rightarrow> responseWriter" where
  "capture lib next w r = ServeHTTP_rw lib next \<lparr>inner = w, statusCode = 0, body = []\<rparr> r"

text \<open>Lines 138 to 154: after the handler, the response is stored when its status code
  is below 400.\<close>

definition forward ::
  "Lib \<Rightarrow> Client \<Rightarrow> Handler \<Rightarrow> 64 word \<Rightarrow> world \<Rightarrow> ResponseWriter \<Rightarrow> Request \<Rightarrow> served" where
  "forward lib c next key s w r =
     (let rw = capture lib next w r;
          value = body rw;
          (now, s1) = time_Now s;
          expires = Add now (ttl c)
      in if statusCode rw < 400
         then (let response = \<lparr>Value = value, Header = header (inner rw), Expiration = expires,
                                LastAccess = now, Frequency = 1\<rparr>
               in \<lparr>world_after = adapter_Set s1 key (Bytes lib response) (Expiration response),
                   writer_after = inner rw, request_after = r, outcome_of = Forwarded\<rparr>)
         else \<lparr>world_after = s1, writer_after = inner rw, request_after = r,
               outcome_of = Forwarded\<rparr>)"

text \<open>Lines 121 to 130: the cached headers, \<^verbatim>\<open>Expires\<close>, \<^verbatim>\<open>Vary\<close> and the cached body
  are written to the outbound writer.\<close>

definition write_hit :: "Lib \<Rightarrow> Client \<Rightarrow> Response \<Rightarrow> ResponseWriter \<Rightarrow> ResponseWriter" where
  "write_hit lib c response w =
     (let w1 = foldl (\<lambda>w (k, v). Header_Set lib w k (Join v '','')) w (Header response);
          w2 = (if writeExpiresHeader c
                then Header_Set lib w1 ''Expires'' (FormatHTTP lib (Expiration response))
                else w1);
          w3 = (if Join (vary c) '','' \<noteq> [] then Header_Set lib w2 ''Vary'' (Join (vary c) '','')
                else w2)
      in w_Write w3 (Value response))"

text \<open>\<^verbatim>\<open>Client.Middleware\<close>, the handler it returns applied to one request.\<close>

definition Middleware ::
  "Lib \<Rightarrow> Client \<Rightarrow> Handler \<Rightarrow> world \<Rightarrow> ResponseWriter \<Rightarrow> Request \<Rightarrow> served" where
  "Middleware lib c next s w r =
     (if \<not> cacheableMethod c (Method r)
      then \<lparr>world_after = s, writer_after = ServeHTTP lib next w r, request_after = r,
            outcome_of = Bypassed\<rparr>
      else
        (let r1 = r\<lparr>URL := sortURLParams (URL r)\<rparr>;
             key = hash c r1;
             params = Query (URL r1)
         in if has_key params (refreshKey c)
            then
              (let params' = delete_key (refreshKey c) params;
                   r2 = r1\<lparr>URL := (URL r1)\<lparr>RawQuery := Encode params'\<rparr>\<rparr>;
                   key' = hash c r2
               in forward lib c next key' (adapter_Release s key') w r2)
            else
              (let ((b, ok), s1) = adapter_Get s key;
                   response = BytesToResponse lib b
               in if ok
                  then
                    (let (t1, s2) = time_Now s1
                     in if After (Expiration response) t1
                        then
                          (let (t2, s3) = time_Now s2;
                               response' = response\<lparr>LastAccess := t2,
                                             Frequency := Frequency response + 1\<rparr>;
                               s4 = adapter_Set s3 key (Bytes lib response') (Expiration response')
                           in \<lparr>world_after = s4, writer_after = write_hit lib c response' w,
                               request_after = r1, outcome_of = ServedFromCache\<rparr>)
                        else forward lib c next key (adapter_Release s2 key) w r1)
                  else forward lib c next key s1 w r1)))"

section \<open>Vocabulary of the statements\<close>

text \<open>The adapter calls made while serving a request: those recorded after the calls
  already in the world the request started from.\<close>

definition new_calls :: "world \<Rightarrow> world \<Rightarrow> adapter_call list" where
  "new_calls s s' = drop (length (calls s)) (calls s')"

fun is_CallSet :: "adapter_call \<Rightarrow> bool" where
  "is_CallSet (CallSet key b e) = True"
| "is_CallSet other = False"

fun is_CallGet :: "adapter_call \<Rightarrow> bool" where
  "is_CallGet (CallGet key) = True"
| "is_CallGet other = False"

fun is_DoWriteHeader :: "action \<Rightarrow> bool" where
  "is_DoWriteHeader (DoWriteHeader code) = True"
| "is_DoWriteHeader other = False"

text \<open>The last reading of the clock taken in a world.\<close>

definition last_reading :: "world \<Rightarrow> time" where
  "last_reading s = clock s (ticks s - 1)"

text \<open>The text of one \<^verbatim>\<open>key=value\<close> pair as \<^verbatim>\<open>Values.Encode\<close> writes it.\<close>

definition pair_string :: "string \<times> string \<Rightarrow> string" where
  "pair_string p = QueryEscape (fst p) @ ''='' @ QueryEscape (snd p)"

text \<open>What holds of every map built by \<^verbatim>\<open>parseQuery\<close>: the keys are distinct and every
  key has at least one value.\<close>

definition well_formed :: "Values \<Rightarrow> bool" where
  "well_formed m = (distinct (map fst m) \<and> [] \<notin> snd ` set m)"

text \<open>The number of values a map holds, over all its keys.\<close>

definition value_count :: "Values \<Rightarrow> nat" where
  "value_count m = sum_list (map (\<lambda>p. length (snd p)) m)"

section \<open>Concrete inputs\<close>

text \<open>
  The inputs on which the statements below are evaluated. The library stand-in keeps
  the payload as the encoding and decodes the bytes \<^verbatim>\<open>E\<close> to \<open>example_entry\<close>, leaving
  the destination as it is on any other input. \<open>example_client\<close> is the client that
  \<^verbatim>\<open>NewClient\<close> builds from an adapter, a time-to-live of ten seconds and the refresh
  key \<^verbatim>\<open>_refresh\<close>; \<open>plain_client\<close> is the one it builds without a refresh key.
\<close>

definition example_entry :: Response where
  "example_entry = \<lparr>Value = ''hello'', Header = [(''Content-Type'', [''text/plain''])],
     Expiration = 1000, LastAccess = 10, Frequency = 1\<rparr>"

definition example_lib :: Lib where
  "example_lib = \<lparr>gobEncode = (\<lambda>r. Value r),
     gobDecode = (\<lambda>b r. if b = ''E'' then example_entry else r),
     CanonicalHeaderKey = (\<lambda>k. k), FormatHTTP = (\<lambda>t. [])\<rparr>"

definition example_client :: Client where
  "example_client = \<lparr>ttl = 10000000000, refreshKey = ''_refresh'', methods = [''GET''],
     writeExpiresHeader = False, vary = [], generateKey = DefaultGenerateKey\<rparr>"

definition plain_client :: Client where
  "plain_client = example_client\<lparr>refreshKey := []\<rparr>"

definition example_next :: Handler where
  "example_next r = [DoHeaderSet ''Content-Type'' ''text/plain'', DoWriteHeader 200,
     DoWrite ''hello'']"

definition chunked_next :: Handler where
  "chunked_next r = [DoWriteHeader 200, DoWrite ''hel'', DoWrite ''lo'']"

definition silent_next :: Handler where
  "silent_next r = [DoWrite ''hello'']"

definition example_writer :: ResponseWriter where
  "example_writer = \<lparr>header = [], statusCodes = [], written = []\<rparr>"

definition request :: "string \<Rightarrow> string \<Rightarrow> string \<Rightarrow> Request" where
  "request method path query =
     \<lparr>Method = method, URL = \<lparr>Path = path, ForceQuery = False, RawQuery = query\<rparr>,
      HeaderValues = (\<lambda>h. []), Body = NoBody\<rparr>"

text \<open>The key under which the client files \<^verbatim>\<open>GET /a\<close>.\<close>

definition key_a :: "64 word" where
  "key_a = hash example_client (request ''GET'' ''/a'' [])"

definition empty_world :: world where
  "empty_world = \<lparr>store = Map.empty, calls = [], clock = (\<lambda>n. 100 + int n), ticks = 0\<rparr>"

text \<open>A world whose adapter holds, for \<^verbatim>\<open>GET /a\<close>, the bytes of \<open>example_entry\<close>, which
  expires at 1000; the clock reads 100, 101 and so on.\<close>

definition warm_world :: world where
  "warm_world = empty_world\<lparr>store := [key_a \<mapsto> (''E'', 1000)]\<rparr>"

text \<open>The same adapter at the instant the entry expires: the clock reads 1000.\<close>

definition expiring_world :: world where
  "expiring_world = warm_world\<lparr>clock := (\<lambda>n. 1000 + int n)\<rparr>"

section \<open>Escaping and parsing of query strings\<close>


lemma upperhex_digits:
  "\<forall>n \<in> set [0..<16]. unhex (upperhex ! n) = n \<and> ishex (upperhex ! n)
     \<and> upperhex ! n \<notin> set ''&=;''"
  by code_simp

lemma upperhex_nibble:
  assumes "n < 16"
  shows "unhex (upperhex ! n) = n" and "ishex (upperhex ! n)"
  using upperhex_digits assms by (simp_all del: upt_Suc)

lemma of_char_lt_256: "(of_char c :: nat) < 256"
  by (cases c) simp

lemma unhex_escape: "char_of (unhex (upperhex ! (of_char c div 16)) * 16
    + unhex (upperhex ! (of_char c mod 16))) = c"
proof -
  have d: "(of_char c :: nat) div 16 < 16"
    using of_char_lt_256 [of c] by arith
  have m: "(of_char c :: nat) mod 16 < 16" by simp
  show ?thesis
    by (simp add: upperhex_nibble(1) [OF d] upperhex_nibble(1) [OF m])
qed

lemma not_shouldEscape_plain: "\<not> shouldEscape c \<Longrightarrow> c \<noteq> CHR ''%'' \<and> c \<noteq> CHR ''+''
   \<and> c \<noteq> CHR ''&'' \<and> c \<noteq> CHR ''='' \<and> c \<noteq> CHR '';'' \<and> c \<noteq> CHR '' ''"
  by (auto simp: shouldEscape_def in_range_def)

lemma QueryUnescape_QueryEscape: "QueryUnescape (QueryEscape s) = Some s"
proof (induction s)
  case Nil
  show ?case by simp
next
  case (Cons c s)
  have d: "(of_char c :: nat) div 16 < 16"
    using of_char_lt_256 [of c] by arith
  have m: "(of_char c :: nat) mod 16 < 16" by simp
  show ?case
    using Cons not_shouldEscape_plain [of c]
    by (simp add: unhex_escape upperhex_nibble(2) [OF d] upperhex_nibble(2) [OF m])
qed

lemma upperhex_plain:
  assumes "n < 16"
  shows "upperhex ! n \<noteq> CHR ''&'' \<and> upperhex ! n \<noteq> CHR ''='' \<and> upperhex ! n \<noteq> CHR '';''"
proof -
  have "upperhex ! n \<notin> set ''&=;''"
    using upperhex_digits assms by (simp del: upt_Suc)
  then show ?thesis by simp
qed

lemma QueryEscape_plain:
  "CHR ''&'' \<notin> set (QueryEscape s) \<and> CHR ''='' \<notin> set (QueryEscape s)
    \<and> CHR '';'' \<notin> set (QueryEscape s)"
proof (induction s)
  case Nil
  show ?case by simp
next
  case (Cons c s)
  have d: "(of_char c :: nat) div 16 < 16"
    using of_char_lt_256 [of c] by arith
  have m: "(of_char c :: nat) mod 16 < 16" by simp
  show ?case
    using Cons not_shouldEscape_plain [of c] upperhex_plain [OF d] upperhex_plain [OF m]
    by auto
qed

lemma Cut_found: "sep \<notin> set a \<Longrightarrow> Cut (a @ sep # b) sep = (a, b)"
  by (induction a) (auto simp: Cut_def)

lemma Cut_absent: "sep \<notin> set a \<Longrightarrow> Cut a sep = (a, [])"
  by (induction a) (auto simp: Cut_def)

lemma parsePair_pair_string: "parsePair (pair_string p) = Some p"
  using QueryEscape_plain [of "fst p"] QueryEscape_plain [of "snd p"]
  by (simp add: parsePair_def pair_string_def Cut_found QueryUnescape_QueryEscape)

lemma pair_string_no_amp: "CHR ''&'' \<notin> set (pair_string p)"
  using QueryEscape_plain [of "fst p"] QueryEscape_plain [of "snd p"]
  by (simp add: pair_string_def)

lemma pair_string_nonempty: "pair_string p \<noteq> []"
  by (simp add: pair_string_def)

lemma parseQuery_loop_Join:
  "parseQuery_loop m (Join (map pair_string ps) ''&'') = foldl (\<lambda>m p. add_value (fst p) (snd p) m) m ps"
proof (induction ps arbitrary: m)
  case Nil
  show ?case by (simp add: parseQuery_loop.simps)
next
  case (Cons p ps)
  show ?case
  proof (cases ps)
    case Nil
    have "parseQuery_loop m (pair_string p) = parseQuery_loop (add_value (fst p) (snd p) m) []"
      by (subst parseQuery_loop.simps)
        (simp add: Cut_absent [OF pair_string_no_amp] parsePair_pair_string pair_string_nonempty
          split: prod.split)
    then show ?thesis using Nil by (simp add: parseQuery_loop.simps [of _ "[]"])
  next
    case (Cons q qs)
    have "parseQuery_loop m (pair_string p @ CHR ''&'' # Join (map pair_string (q # qs)) ''&'')
        = parseQuery_loop (add_value (fst p) (snd p) m) (Join (map pair_string (q # qs)) ''&'')"
      by (subst parseQuery_loop.simps)
        (simp add: Cut_found [OF pair_string_no_amp] parsePair_pair_string pair_string_nonempty
          split: prod.split)
    then show ?thesis using Cons Cons.IH [of "add_value (fst p) (snd p) m"] by simp
  qed
qed

lemma count_list_Cut: "count_list (snd (Cut q sep)) sep = count_list q sep - 1"
  by (induction q) (auto simp: Cut_def)

lemma count_list_pair_string: "count_list (pair_string p) CHR ''&'' = 0"
  by (simp add: count_list_0_iff pair_string_no_amp)

lemma count_list_Join:
  "count_list (Join (map pair_string ps) ''&'') CHR ''&'' = length ps - 1"
proof (induction ps)
  case Nil
  show ?case by simp
next
  case (Cons p ps)
  show ?case
  proof (cases ps)
    case Nil
    then show ?thesis by (simp add: count_list_pair_string)
  next
    case (Cons q qs)
    then show ?thesis using Cons.IH by (simp add: count_list_pair_string)
  qed
qed

lemma parseQuery_Join:
  assumes "length ps \<le> 10000"
  shows "parseQuery m (Join (map pair_string ps) ''&'')
    = foldl (\<lambda>m p. add_value (fst p) (snd p) m) m ps"
proof -
  have "urlParamsWithinMax (count_list (Join (map pair_string ps) ''&'') CHR ''&'' + 1)"
    using assms by (simp add: urlParamsWithinMax_def count_list_Join)
  then show ?thesis by (simp add: parseQuery_def parseQuery_loop_Join)
qed

lemma add_value_fresh: "k \<notin> fst ` set m \<Longrightarrow> add_value k v m = m @ [(k, [v])]"
  by (induction m) auto

lemma add_value_last:
  "k \<notin> fst ` set m \<Longrightarrow> add_value k v (m @ [(k, ws)]) = m @ [(k, ws @ [v])]"
  by (induction m) auto

lemma add_values_last:
  "k \<notin> fst ` set m \<Longrightarrow>
   foldl (\<lambda>m p. add_value (fst p) (snd p) m) (m @ [(k, ws)]) (map (Pair k) vs) = m @ [(k, ws @ vs)]"
  by (induction vs arbitrary: ws) (simp_all add: add_value_last)

lemma add_values_fresh:
  assumes "k \<notin> fst ` set m"
  shows "foldl (\<lambda>m p. add_value (fst p) (snd p) m) m (map (Pair k) vs)
    = (if vs = [] then m else m @ [(k, vs)])"
proof (cases vs)
  case Nil
  then show ?thesis by simp
next
  case (Cons x xs)
  then show ?thesis
    using assms add_values_last [OF assms, of "[x]" xs] by (simp add: add_value_fresh)
qed

lemma add_values_concat:
  "distinct ks \<Longrightarrow> set ks \<inter> fst ` set m = {} \<Longrightarrow>
   foldl (\<lambda>m p. add_value (fst p) (snd p) m) m (concat (map (\<lambda>k. map (Pair k) (f k)) ks))
     = m @ filter (\<lambda>p. snd p \<noteq> []) (map (\<lambda>k. (k, f k)) ks)"
proof (induction ks arbitrary: m)
  case Nil
  show ?case by simp
next
  case (Cons k ks)
  have k: "k \<notin> fst ` set m" using Cons.prems by auto
  show ?case
  proof (cases "f k = []")
    case True
    then show ?thesis using Cons by auto
  next
    case False
    have "set ks \<inter> fst ` set (m @ [(k, f k)]) = {}"
      using Cons.prems by auto
    then show ?thesis
      using Cons.IH [of "m @ [(k, f k)]"] Cons.prems False
      by (simp add: add_values_fresh [OF k])
  qed
qed

lemma Encode_pair_strings:
  "Encode v = Join (map pair_string
      (concat (map (\<lambda>k. map (Pair k) (values_of v k)) (sort (map fst v))))) ''&''"
  by (simp add: Encode_def pair_string_def map_concat comp_def)

lemma add_value_keys_old: "k \<in> fst ` set m \<Longrightarrow> map fst (add_value k v m) = map fst m"
proof (induction m)
  case Nil
  then show ?case by simp
next
  case (Cons p m)
  obtain k' vs where p: "p = (k', vs)" by (cases p)
  show ?case
  proof (cases "k = k'")
    case True
    then show ?thesis by (simp add: p)
  next
    case False
    then have "k \<in> fst ` set m" using Cons.prems by (auto simp: p)
    then show ?thesis using Cons.IH False by (simp add: p)
  qed
qed

lemma add_value_keys_new: "k \<notin> fst ` set m \<Longrightarrow> map fst (add_value k v m) = map fst m @ [k]"
proof (induction m)
  case Nil
  then show ?case by simp
next
  case (Cons p m)
  obtain k' vs where p: "p = (k', vs)" by (cases p)
  have "k \<noteq> k'" and "k \<notin> fst ` set m" using Cons.prems by (auto simp: p)
  then show ?case using Cons.IH by (simp add: p)
qed

lemma add_value_nonempty: "[] \<notin> snd ` set m \<Longrightarrow> [] \<notin> snd ` set (add_value k v m)"
proof (induction m)
  case Nil
  then show ?case by simp
next
  case (Cons p m)
  obtain k' vs where p: "p = (k', vs)" by (cases p)
  have "vs \<noteq> []" and "[] \<notin> snd ` set m" using Cons.prems by (auto simp: p)
  then show ?case using Cons.IH by (simp add: p)
qed

lemma add_value_well_formed:
  assumes "well_formed m"
  shows "well_formed (add_value k v m)"
proof (cases "k \<in> fst ` set m")
  case True
  then show ?thesis
    using assms add_value_nonempty [of m k v] by (simp add: well_formed_def add_value_keys_old)
next
  case False
  then show ?thesis
    using assms add_value_nonempty [of m k v] by (simp add: well_formed_def add_value_keys_new)
qed

lemma parseQuery_loop_well_formed: "well_formed m \<Longrightarrow> well_formed (parseQuery_loop m q)"
proof (induction m q rule: parseQuery_loop.induct)
  case (1 m query)
  show ?case
  proof (cases "query = []")
    case True
    then show ?thesis using 1 by (simp add: parseQuery_loop.simps)
  next
    case False
    show ?thesis
    proof (cases "parsePair (fst (Cut query CHR ''&''))")
      case None
      then show ?thesis
        using 1 False by (subst parseQuery_loop.simps) simp
    next
      case (Some p)
      obtain k v where p: "p = (k, v)" by (cases p)
      show ?thesis
        using 1(2) [OF False Some [unfolded p] refl] 1(3) False Some p
        by (subst parseQuery_loop.simps) (simp add: add_value_well_formed)
    qed
  qed
qed

lemma parseQuery_well_formed: "well_formed m \<Longrightarrow> well_formed (parseQuery m q)"
  by (simp add: parseQuery_def parseQuery_loop_well_formed)

lemma value_count_add_value: "value_count (add_value k v m) = Suc (value_count m)"
  by (induction m) (auto simp: value_count_def)

lemma segments_after_Cut:
  "(if snd (Cut q sep) = [] then 0 else Suc (count_list (snd (Cut q sep)) sep))
     \<le> count_list q sep"
proof (cases "sep \<in> set q")
  case True
  then have "count_list q sep \<noteq> 0" by (simp add: count_list_0_iff)
  then show ?thesis by (simp add: count_list_Cut)
next
  case False
  then show ?thesis by (simp add: Cut_absent)
qed

lemma value_count_parseQuery_loop:
  "value_count (parseQuery_loop m q)
     \<le> value_count m + (if q = [] then 0 else Suc (count_list q CHR ''&''))"
proof (induction m q rule: parseQuery_loop.induct)
  case (1 m query)
  show ?case
  proof (cases "query = []")
    case True
    then show ?thesis by (simp add: parseQuery_loop.simps)
  next
    case False
    note rest = segments_after_Cut [of query "CHR ''&''"]
    show ?thesis
    proof (cases "parsePair (fst (Cut query CHR ''&''))")
      case None
      have "parseQuery_loop m query = parseQuery_loop m (snd (Cut query CHR ''&''))"
        using False None by (subst parseQuery_loop.simps) simp
      then show ?thesis
        using 1(1) [OF False None] rest False by (simp split: if_splits)
    next
      case (Some p)
      obtain k v where p: "p = (k, v)" by (cases p)
      have "parseQuery_loop m query
          = parseQuery_loop (add_value k v m) (snd (Cut query CHR ''&''))"
        using False Some p by (subst parseQuery_loop.simps) simp
      then show ?thesis
        using 1(2) [OF False Some [unfolded p] refl] rest False
        by (simp add: value_count_add_value split: if_splits)
    qed
  qed
qed

lemma value_count_parseQuery: "value_count (parseQuery [] q) \<le> 10000"
proof (cases "urlParamsWithinMax (count_list q CHR ''&'' + 1)")
  case True
  have "value_count ([] :: Values) = 0" by (simp add: value_count_def)
  then show ?thesis
    using value_count_parseQuery_loop [of "[]" q] True
    by (simp add: parseQuery_def urlParamsWithinMax_def split: if_splits)
next
  case False
  then show ?thesis by (simp add: parseQuery_def value_count_def)
qed

lemma value_count_Query: "value_count (Query u) \<le> 10000"
  by (simp add: Query_def value_count_parseQuery)

lemma Query_well_formed: "well_formed (Query u)"
  unfolding Query_def by (rule parseQuery_well_formed) (simp add: well_formed_def)

lemma values_of_sorted_map:
  "values_of (map (\<lambda>(k, vs). (k, sort vs)) m) k = sort (values_of m k)"
  by (induction m) (auto simp: values_of_def)

lemma values_of_nonempty:
  "well_formed m \<Longrightarrow> k \<in> fst ` set m \<Longrightarrow> values_of m k \<noteq> []"
  by (induction m) (auto simp: values_of_def well_formed_def)

lemma sort_Nil_iff: "sort xs = [] \<longleftrightarrow> xs = []"
  by (metis length_0_conv length_sort)

lemma map_fst_sorted_map: "map fst (map (\<lambda>(k, vs). (k, sort vs)) m) = map fst m"
  by (induction m) auto

lemma map_values_of_id:
  assumes "distinct (map fst m)"
  shows "map (\<lambda>k. (k, values_of m k)) (map fst m) = m"
proof -
  have "(fst p, values_of m (fst p)) = p" if "p \<in> set m" for p
  proof -
    have "map_of m (fst p) = Some (snd p)"
      using that assms by simp
    then show ?thesis by (simp add: values_of_def)
  qed
  then have "map (\<lambda>p. (fst p, values_of m (fst p))) m = m"
    by (simp add: map_idI)
  then show ?thesis by (simp add: comp_def)
qed

lemma sum_list_sort: "sum_list (map f (sort ks)) = sum_list (map (f :: string \<Rightarrow> nat) ks)"
proof -
  have "mset (map f (sort ks)) = mset (map f ks)" by simp
  then have "sum_mset (mset (map f (sort ks))) = sum_mset (mset (map f ks))" by simp
  then show ?thesis by (simp only: sum_mset_sum_list)
qed

lemma length_pairs:
  assumes "distinct (map fst v)"
  shows "length (concat (map (\<lambda>k. map (Pair k) (values_of v k)) (sort (map fst v))))
    = value_count v"
proof -
  have "length (concat (map (\<lambda>k. map (Pair k) (values_of v k)) (sort (map fst v))))
      = sum_list (map (\<lambda>k. length (values_of v k)) (sort (map fst v)))"
    by (simp add: length_concat comp_def)
  also have "\<dots> = sum_list (map (\<lambda>k. length (values_of v k)) (map fst v))"
    by (rule sum_list_sort)
  also have "\<dots> = sum_list (map (\<lambda>p. length (snd p))
      (map (\<lambda>k. (k, values_of v k)) (map fst v)))"
    by (simp add: comp_def)
  also have "\<dots> = value_count v"
    by (simp only: map_values_of_id [OF assms] value_count_def)
  finally show ?thesis .
qed

lemma parseQuery_Encode:
  assumes "distinct (map fst v)" and "value_count v \<le> 10000"
  shows "parseQuery [] (Encode v)
    = filter (\<lambda>p. snd p \<noteq> []) (map (\<lambda>k. (k, values_of v k)) (sort (map fst v)))"
proof -
  have "length (concat (map (\<lambda>k. map (Pair k) (values_of v k)) (sort (map fst v)))) \<le> 10000"
    using assms by (simp only: length_pairs)
  then show ?thesis
    using add_values_concat [of "sort (map fst v)" "[]" "values_of v"] assms(1)
    by (simp add: Encode_pair_strings parseQuery_Join)
qed

lemma value_count_sorted_map: "value_count (map (\<lambda>(k, vs). (k, sort vs)) m) = value_count m"
  by (induction m) (auto simp: value_count_def)

lemma value_count_delete_key: "value_count (delete_key k m) \<le> value_count m"
  by (induction m) (auto simp: value_count_def delete_key_def)

lemma Query_sortURLParams:
  "Query (sortURLParams u)
     = map (\<lambda>k. (k, sort (values_of (Query u) k))) (sort (map fst (Query u)))"
proof -
  let ?q = "Query u"
  have wf: "well_formed ?q" by (rule Query_well_formed)
  have d: "distinct (map fst (map (\<lambda>(k, vs). (k, sort vs)) ?q))"
    using wf unfolding map_fst_sorted_map well_formed_def by simp
  have n: "value_count (map (\<lambda>(k, vs). (k, sort vs)) ?q) \<le> 10000"
    by (simp only: value_count_sorted_map value_count_Query)
  have ne: "\<forall>k \<in> set (sort (map fst ?q)). sort (values_of ?q k) \<noteq> []"
    using values_of_nonempty [OF wf] by (simp add: sort_Nil_iff)
  have "Query (sortURLParams u) = parseQuery [] (Encode (map (\<lambda>(k, vs). (k, sort vs)) ?q))"
    by (simp add: Query_def sortURLParams_def)
  also have "\<dots>
      = filter (\<lambda>p. snd p \<noteq> []) (map (\<lambda>k. (k, sort (values_of ?q k))) (sort (map fst ?q)))"
    using parseQuery_Encode [OF d n] unfolding map_fst_sorted_map values_of_sorted_map .
  also have "\<dots> = map (\<lambda>k. (k, sort (values_of ?q k))) (sort (map fst ?q))"
    using ne by (simp add: filter_id_conv)
  finally show ?thesis .
qed

lemma has_key_iff: "has_key m k \<longleftrightarrow> k \<in> fst ` set m"
  by (simp add: has_key_def map_of_eq_None_iff)

lemma has_key_sortURLParams: "has_key (Query (sortURLParams u)) k = has_key (Query u) k"
  by (simp add: has_key_iff Query_sortURLParams image_comp comp_def)

lemma parseQuery_Encode_id:
  assumes "well_formed v" and "sorted (map fst v)" and "value_count v \<le> 10000"
  shows "parseQuery [] (Encode v) = v"
proof -
  have d: "distinct (map fst v)" using assms(1) by (simp add: well_formed_def)
  have "parseQuery [] (Encode v) = filter (\<lambda>p. snd p \<noteq> []) (map (\<lambda>k. (k, values_of v k)) (map fst v))"
    using parseQuery_Encode [OF d assms(3)] assms(2) by (simp add: sorted_sort_id)
  also have "\<dots> = filter (\<lambda>p. snd p \<noteq> []) v"
    by (simp only: map_values_of_id [OF d])
  also have "\<dots> = v"
    using assms(1) by (induction v) (auto simp: well_formed_def)
  finally show ?thesis .
qed

lemma Query_sortURLParams_normal:
  "well_formed (Query (sortURLParams u)) \<and> sorted (map fst (Query (sortURLParams u)))"
  by (simp add: Query_well_formed) (simp add: Query_sortURLParams comp_def)

lemma delete_key_normal:
  "well_formed m \<Longrightarrow> sorted (map fst m) \<Longrightarrow>
   well_formed (delete_key k m) \<and> sorted (map fst (delete_key k m))"
  by (auto simp: well_formed_def delete_key_def distinct_map_filter sorted_map sorted_wrt_filter)

lemma Query_after_delete:
  "Query ((sortURLParams u)\<lparr>RawQuery := Encode (delete_key k (Query (sortURLParams u)))\<rparr>)
     = delete_key k (Query (sortURLParams u))"
proof -
  have "value_count (delete_key k (Query (sortURLParams u))) \<le> 10000"
    using value_count_delete_key [of k "Query (sortURLParams u)"]
      value_count_Query [of "sortURLParams u"] by simp
  then show ?thesis
    using delete_key_normal [of "Query (sortURLParams u)" k] Query_sortURLParams_normal [of u]
    by (simp add: Query_def [of "_\<lparr>RawQuery := _\<rparr>"] parseQuery_Encode_id)
qed

text \<open>A query of more than 10000 segments parses to no parameter at all, and is
  rewritten to the empty string.\<close>

lemma Query_beyond_limit:
  "10000 < count_list (RawQuery u) CHR ''&'' + 1 \<Longrightarrow> Query u = []"
  by (simp add: Query_def parseQuery_def urlParamsWithinMax_def)

lemma sortURLParams_beyond_limit:
  "10000 < count_list (RawQuery u) CHR ''&'' + 1 \<Longrightarrow> RawQuery (sortURLParams u) = []"
  by (simp add: sortURLParams_def Query_beyond_limit Encode_def)

section \<open>The clients of the concrete inputs\<close>

lemma NewClient_example:
  "NewClient [ClientWithAdapter AnAdapter, ClientWithTTL 10000000000,
      ClientWithRefreshKey ''_refresh''] = Inr example_client"
  by (simp add: NewClient_def zero_draft_def example_client_def)

lemma NewClient_plain:
  "NewClient [ClientWithAdapter AnAdapter, ClientWithTTL 10000000000] = Inr plain_client"
  by (simp add: NewClient_def zero_draft_def example_client_def plain_client_def)

section \<open>The paths through the middleware\<close>

lemma forward_outcome: "outcome_of (forward lib c next key s w r) = Forwarded"
  by (simp add: forward_def Let_def split: prod.splits)

lemma forward_request: "request_after (forward lib c next key s w r) = r"
  by (simp add: forward_def Let_def split: prod.splits)

lemma forward_writer: "writer_after (forward lib c next key s w r) = inner (capture lib next w r)"
  by (simp add: forward_def Let_def split: prod.splits)

lemma forward_world:
  "world_after (forward lib c next key s w r) =
     (if statusCode (capture lib next w r) < 400
      then adapter_Set (s\<lparr>ticks := Suc (ticks s)\<rparr>) key
             (Bytes lib \<lparr>Value = body (capture lib next w r),
                Header = header (inner (capture lib next w r)),
                Expiration = Add (clock s (ticks s)) (ttl c),
                LastAccess = clock s (ticks s), Frequency = 1\<rparr>)
             (Add (clock s (ticks s)) (ttl c))
      else s\<lparr>ticks := Suc (ticks s)\<rparr>)"
  by (simp add: forward_def Let_def time_Now_def split: prod.splits)

lemma Middleware_bypass:
  assumes "\<not> cacheableMethod c (Method r)"
  shows "Middleware lib c next s w r =
    \<lparr>world_after = s, writer_after = ServeHTTP lib next w r, request_after = r,
     outcome_of = Bypassed\<rparr>"
  using assms by (simp add: Middleware_def)

lemma Middleware_refresh:
  assumes "cacheableMethod c (Method r)" and "has_key (Query (URL r)) (refreshKey c)"
  shows "Middleware lib c next s w r =
    (let r2 = r\<lparr>URL := (sortURLParams (URL r))\<lparr>RawQuery :=
                  Encode (delete_key (refreshKey c) (Query (sortURLParams (URL r))))\<rparr>\<rparr>
     in forward lib c next (hash c r2) (adapter_Release s (hash c r2)) w r2)"
  using assms by (simp add: Middleware_def Let_def has_key_sortURLParams)

lemma Middleware_absent:
  assumes "cacheableMethod c (Method r)" and "\<not> has_key (Query (URL r)) (refreshKey c)"
    and "store s (hash c (r\<lparr>URL := sortURLParams (URL r)\<rparr>)) = None"
  shows "Middleware lib c next s w r =
    (let r1 = r\<lparr>URL := sortURLParams (URL r)\<rparr>
     in forward lib c next (hash c r1) (s\<lparr>calls := calls s @ [CallGet (hash c r1)]\<rparr>) w r1)"
  using assms by (simp add: Middleware_def Let_def has_key_sortURLParams adapter_Get_def)

lemma Middleware_stale:
  assumes "cacheableMethod c (Method r)" and "\<not> has_key (Query (URL r)) (refreshKey c)"
    and "store s (hash c (r\<lparr>URL := sortURLParams (URL r)\<rparr>)) = Some (b, e)"
    and "\<not> After (Expiration (BytesToResponse lib b)) (clock s (ticks s))"
  shows "Middleware lib c next s w r =
    (let r1 = r\<lparr>URL := sortURLParams (URL r)\<rparr>
     in forward lib c next (hash c r1)
          (adapter_Release (s\<lparr>calls := calls s @ [CallGet (hash c r1)], ticks := Suc (ticks s)\<rparr>)
             (hash c r1)) w r1)"
  using assms
  by (simp add: Middleware_def Let_def has_key_sortURLParams adapter_Get_def time_Now_def)

lemma Middleware_fresh:
  assumes "cacheableMethod c (Method r)" and "\<not> has_key (Query (URL r)) (refreshKey c)"
    and "store s (hash c (r\<lparr>URL := sortURLParams (URL r)\<rparr>)) = Some (b, e)"
    and "After (Expiration (BytesToResponse lib b)) (clock s (ticks s))"
  shows "Middleware lib c next s w r =
    (let r1 = r\<lparr>URL := sortURLParams (URL r)\<rparr>;
         response' = (BytesToResponse lib b)\<lparr>LastAccess := clock s (Suc (ticks s)),
                       Frequency := Frequency (BytesToResponse lib b) + 1\<rparr>
     in \<lparr>world_after =
           adapter_Set (s\<lparr>calls := calls s @ [CallGet (hash c r1)], ticks := Suc (Suc (ticks s))\<rparr>)
             (hash c r1) (Bytes lib response') (Expiration (BytesToResponse lib b)),
         writer_after = write_hit lib c response' w,
         request_after = r1, outcome_of = ServedFromCache\<rparr>)"
  using assms
  by (simp add: Middleware_def Let_def has_key_sortURLParams adapter_Get_def time_Now_def)

text \<open>Every request that reaches the forward block does so with the key derived from
  the request the handler sees, in a world where that key has no entry and no Set has
  been called.\<close>

lemma Forwarded_via_forward:
  assumes "outcome_of (Middleware lib c next s w r) = Forwarded"
  shows "\<exists>s0 pre. Middleware lib c next s w r
        = forward lib c next (hash c (request_after (Middleware lib c next s w r))) s0 w
            (request_after (Middleware lib c next s w r))
      \<and> calls s0 = calls s @ pre \<and> filter is_CallSet pre = [] \<and> clock s0 = clock s
      \<and> store s0 (hash c (request_after (Middleware lib c next s w r))) = None"
proof (cases "cacheableMethod c (Method r)")
  case False
  then show ?thesis using assms by (simp add: Middleware_bypass)
next
  case cacheable: True
  show ?thesis
  proof (cases "has_key (Query (URL r)) (refreshKey c)")
    case True
    let ?r2 = "r\<lparr>URL := (sortURLParams (URL r))\<lparr>RawQuery :=
                  Encode (delete_key (refreshKey c) (Query (sortURLParams (URL r))))\<rparr>\<rparr>"
    have m: "Middleware lib c next s w r
        = forward lib c next (hash c ?r2) (adapter_Release s (hash c ?r2)) w ?r2"
      using Middleware_refresh [OF cacheable True] by (simp add: Let_def)
    show ?thesis
      apply (rule exI [of _ "adapter_Release s (hash c ?r2)"])
      apply (rule exI [of _ "[CallRelease (hash c ?r2)]"])
      apply (simp add: m forward_request adapter_Release_def)
      done
  next
    case norefresh: False
    let ?r1 = "r\<lparr>URL := sortURLParams (URL r)\<rparr>"
    show ?thesis
    proof (cases "store s (hash c ?r1)")
      case None
      have m: "Middleware lib c next s w r
          = forward lib c next (hash c ?r1) (s\<lparr>calls := calls s @ [CallGet (hash c ?r1)]\<rparr>) w ?r1"
        using Middleware_absent [OF cacheable norefresh None] by (simp add: Let_def)
      show ?thesis
        apply (rule exI [of _ "s\<lparr>calls := calls s @ [CallGet (hash c ?r1)]\<rparr>"])
        apply (rule exI [of _ "[CallGet (hash c ?r1)]"])
        apply (simp add: m forward_request None)
        done
    next
      case (Some p)
      obtain b e where p: "p = (b, e)" by (cases p)
      show ?thesis
      proof (cases "After (Expiration (BytesToResponse lib b)) (clock s (ticks s))")
        case True
        then show ?thesis
          using assms Middleware_fresh [OF cacheable norefresh Some [unfolded p] True]
          by (simp add: Let_def)
      next
        case False
        let ?s0 = "adapter_Release
            (s\<lparr>calls := calls s @ [CallGet (hash c ?r1)], ticks := Suc (ticks s)\<rparr>) (hash c ?r1)"
        have m: "Middleware lib c next s w r = forward lib c next (hash c ?r1) ?s0 w ?r1"
          using Middleware_stale [OF cacheable norefresh Some [unfolded p] False]
          by (simp add: Let_def)
        show ?thesis
          apply (rule exI [of _ ?s0])
          apply (rule exI [of _ "[CallGet (hash c ?r1), CallRelease (hash c ?r1)]"])
          apply (simp add: m forward_request adapter_Release_def)
          done
      qed
    qed
  qed
qed

lemma new_calls_append: "calls s' = calls s @ xs \<Longrightarrow> new_calls s s' = xs"
  by (simp add: new_calls_def)

lemma statusCode_without_WriteHeader:
  "\<forall>a \<in> set acts. \<not> is_DoWriteHeader a \<Longrightarrow>
   statusCode (foldl (perform_rw lib) rw acts) = statusCode rw"
proof (induction acts arbitrary: rw)
  case Nil
  show ?case by simp
next
  case (Cons a acts)
  have "statusCode (perform_rw lib rw a) = statusCode rw"
    using Cons.prems by (cases a) (simp_all add: rw_Write_def)
  then show ?case using Cons by simp
qed

text \<open>Which path a request takes, and the world, key and request it reaches the forward
  block with, do not depend on the handler.\<close>

lemma Forwarded_any_handler:
  assumes "outcome_of (Middleware lib c next s w r) = Forwarded"
  shows "\<exists>s0 r'. \<forall>h. Middleware lib c h s w r = forward lib c h (hash c r') s0 w r'"
proof (cases "cacheableMethod c (Method r)")
  case False
  then show ?thesis using assms by (simp add: Middleware_bypass)
next
  case cacheable: True
  show ?thesis
  proof (cases "has_key (Query (URL r)) (refreshKey c)")
    case True
    let ?r2 = "r\<lparr>URL := (sortURLParams (URL r))\<lparr>RawQuery :=
                  Encode (delete_key (refreshKey c) (Query (sortURLParams (URL r))))\<rparr>\<rparr>"
    have "\<forall>h. Middleware lib c h s w r
        = forward lib c h (hash c ?r2) (adapter_Release s (hash c ?r2)) w ?r2"
      using Middleware_refresh [OF cacheable True] by (simp add: Let_def)
    then show ?thesis by (intro exI)
  next
    case norefresh: False
    let ?r1 = "r\<lparr>URL := sortURLParams (URL r)\<rparr>"
    show ?thesis
    proof (cases "store s (hash c ?r1)")
      case None
      have "\<forall>h. Middleware lib c h s w r
          = forward lib c h (hash c ?r1) (s\<lparr>calls := calls s @ [CallGet (hash c ?r1)]\<rparr>) w ?r1"
        using Middleware_absent [OF cacheable norefresh None] by (simp add: Let_def)
      then show ?thesis by (intro exI)
    next
      case (Some p)
      obtain b e where p: "p = (b, e)" by (cases p)
      show ?thesis
      proof (cases "After (Expiration (BytesToResponse lib b)) (clock s (ticks s))")
        case True
        then show ?thesis
          using assms Middleware_fresh [OF cacheable norefresh Some [unfolded p] True]
          by (simp add: Let_def)
      next
        case False
        have "\<forall>h. Middleware lib c h s w r
            = forward lib c h (hash c ?r1)
                (adapter_Release
                   (s\<lparr>calls := calls s @ [CallGet (hash c ?r1)], ticks := Suc (ticks s)\<rparr>)
                   (hash c ?r1)) w ?r1"
          using Middleware_stale [OF cacheable norefresh Some [unfolded p] False]
          by (simp add: Let_def)
        then show ?thesis by (intro exI)
      qed
    qed
  qed
qed

lemma captured_body_and_header:
  "body a = body b \<Longrightarrow> header (inner a) = header (inner b) \<Longrightarrow>
   body (foldl (perform_rw lib) a acts) = body (foldl (perform_rw lib) b acts)
   \<and> header (inner (foldl (perform_rw lib) a acts))
       = header (inner (foldl (perform_rw lib) b acts))"
proof (induction acts arbitrary: a b)
  case Nil
  then show ?case by simp
next
  case (Cons x acts)
  have "body (perform_rw lib a x) = body (perform_rw lib b x)
      \<and> header (inner (perform_rw lib a x)) = header (inner (perform_rw lib b x))"
    using Cons.prems
    by (cases x) (simp_all add: rw_WriteHeader_def rw_Write_def w_WriteHeader_def w_Write_def
        Header_Set_def Header_Add_def)
  then show ?case using Cons.IH [of "perform_rw lib a x" "perform_rw lib b x"] by simp
qed

lemma capture_after_WriteHeader:
  "body (capture lib (\<lambda>q. DoWriteHeader code # h q) w r) = body (capture lib h w r)
   \<and> header (inner (capture lib (\<lambda>q. DoWriteHeader code # h q) w r))
       = header (inner (capture lib h w r))"
proof -
  let ?rw = "\<lparr>inner = w, statusCode = 0, body = []\<rparr>"
  have "body (rw_WriteHeader ?rw code) = body ?rw"
    and "header (inner (rw_WriteHeader ?rw code)) = header (inner ?rw)"
    by (simp_all add: rw_WriteHeader_def w_WriteHeader_def)
  then show ?thesis
    using captured_body_and_header [of "rw_WriteHeader ?rw code" ?rw lib "h r"]
    by (simp add: capture_def ServeHTTP_rw_def)
qed

lemma statusCode_after_WriteHeader:
  assumes "filter is_DoWriteHeader (h r) = []"
  shows "statusCode (capture lib (\<lambda>q. DoWriteHeader code # h q) w r) = code"
  using statusCode_without_WriteHeader [of "h r" lib] assms
  by (simp add: capture_def ServeHTTP_rw_def filter_empty_conv rw_WriteHeader_def)

lemma explicit_success_same_world:
  assumes "outcome_of (Middleware lib c next s w r) = Forwarded"
    and "filter is_DoWriteHeader (next (request_after (Middleware lib c next s w r))) = []"
  shows "world_after (Middleware lib c (\<lambda>q. DoWriteHeader 200 # next q) s w r)
    = world_after (Middleware lib c next s w r)"
proof -
  obtain s0 r' where m: "\<And>h. Middleware lib c h s w r = forward lib c h (hash c r') s0 w r'"
    using Forwarded_any_handler [OF assms(1)] by blast
  have r': "request_after (Middleware lib c next s w r) = r'"
    by (simp add: m forward_request)
  have quiet: "filter is_DoWriteHeader (next r') = []"
    using assms(2) by (simp add: r')
  have zero: "statusCode (capture lib next w r') = 0"
    using statusCode_without_WriteHeader [of "next r'" lib] quiet
    by (simp add: capture_def ServeHTTP_rw_def filter_empty_conv)
  have ok: "statusCode (capture lib (\<lambda>q. DoWriteHeader 200 # next q) w r') = 200"
    using quiet by (rule statusCode_after_WriteHeader)
  show ?thesis
    by (simp add: m forward_world zero ok capture_after_WriteHeader)
qed

section \<open>Storage after the handler (C1, C10)\<close>

text \<open>
  C1. For every request that reaches the forward block, with \<open>r'\<close> the request the
  handler saw and \<open>rw\<close> the capturing wrapper when the handler returns: the adapter's
  \<^verbatim>\<open>Set\<close> is called while the request is served exactly when the captured status code
  is below 400, and then exactly once, under the key derived from \<open>r'\<close>, with the
  encoding of the entry whose payload is the captured body, whose headers are the
  captured response headers, whose expiration is the current time plus the configured
  time-to-live, whose last access is the current time and whose frequency is 1, and with
  that expiration; the adapter then holds that entry under the key. When the status
  code is 400 or more \<^verbatim>\<open>Set\<close> is not called and the key has no entry.
\<close>

theorem status_gated_storage:
  assumes "outcome_of (Middleware lib c next s w r) = Forwarded"
  shows "let res = Middleware lib c next s w r;
             r' = request_after res;
             rw = capture lib next w r';
             now = last_reading (world_after res);
             entry = \<lparr>Value = body rw, Header = header (inner rw),
                       Expiration = Add now (ttl c), LastAccess = now, Frequency = 1\<rparr>
         in filter is_CallSet (new_calls s (world_after res))
              = (if statusCode rw < 400
                 then [CallSet (hash c r') (Bytes lib entry) (Add now (ttl c))] else [])
          \<and> store (world_after res) (hash c r')
              = (if statusCode rw < 400 then Some (Bytes lib entry, Add now (ttl c)) else None)"
proof -
  let ?res = "Middleware lib c next s w r"
  let ?r' = "request_after ?res"
  obtain s0 pre where m: "?res = forward lib c next (hash c ?r') s0 w ?r'"
    and pre: "calls s0 = calls s @ pre" "filter is_CallSet pre = []"
    and absent: "store s0 (hash c ?r') = None"
    using Forwarded_via_forward [OF assms] by blast
  have w: "world_after ?res = world_after (forward lib c next (hash c ?r') s0 w ?r')"
    using m by simp
  show ?thesis
  proof (cases "statusCode (capture lib next w ?r') < 400")
    case True
    have "last_reading (world_after ?res) = clock s0 (ticks s0)"
      by (simp add: w forward_world True adapter_Set_def last_reading_def)
    moreover have "new_calls s (world_after ?res)
        = pre @ [CallSet (hash c ?r')
            (Bytes lib \<lparr>Value = body (capture lib next w ?r'),
               Header = header (inner (capture lib next w ?r')),
               Expiration = Add (clock s0 (ticks s0)) (ttl c),
               LastAccess = clock s0 (ticks s0), Frequency = 1\<rparr>)
            (Add (clock s0 (ticks s0)) (ttl c))]"
      by (rule new_calls_append) (simp add: w forward_world True adapter_Set_def pre)
    moreover have "store (world_after ?res) (hash c ?r')
        = Some (Bytes lib \<lparr>Value = body (capture lib next w ?r'),
               Header = header (inner (capture lib next w ?r')),
               Expiration = Add (clock s0 (ticks s0)) (ttl c),
               LastAccess = clock s0 (ticks s0), Frequency = 1\<rparr>,
             Add (clock s0 (ticks s0)) (ttl c))"
      by (simp add: w forward_world True adapter_Set_def)
    ultimately show ?thesis using True pre(2) by (simp add: Let_def)
  next
    case False
    have "new_calls s (world_after ?res) = pre"
      by (rule new_calls_append) (simp add: w forward_world False pre)
    moreover have "store (world_after ?res) (hash c ?r') = None"
      by (simp add: w forward_world False absent)
    ultimately show ?thesis using False pre(2) by (simp add: Let_def)
  qed
qed

theorem status_gated_storage_witness:
  "outcome_of (Middleware example_lib example_client example_next empty_world example_writer
      (request ''GET'' ''/a'' ''x=2&x=1'')) = Forwarded
   \<and> (let res = Middleware example_lib example_client example_next empty_world example_writer
              (request ''GET'' ''/a'' ''x=2&x=1'');
          r' = request_after res;
          rw = capture example_lib example_next example_writer r';
          now = last_reading (world_after res);
          entry = \<lparr>Value = body rw, Header = header (inner rw),
                    Expiration = Add now (ttl example_client), LastAccess = now, Frequency = 1\<rparr>
      in filter is_CallSet (new_calls empty_world (world_after res))
              = (if statusCode rw < 400
                 then [CallSet (hash example_client r') (Bytes example_lib entry)
                         (Add now (ttl example_client))] else [])
          \<and> store (world_after res) (hash example_client r')
              = (if statusCode rw < 400
                 then Some (Bytes example_lib entry, Add now (ttl example_client)) else None))"
proof -
  have h: "outcome_of (Middleware example_lib example_client example_next empty_world
      example_writer (request ''GET'' ''/a'' ''x=2&x=1'')) = Forwarded"
    by code_simp
  show ?thesis
    using h status_gated_storage [OF h] by (intro conjI)
qed

text \<open>
  C10. If the handler returns without ever calling \<^verbatim>\<open>WriteHeader\<close> on the capturing
  wrapper, the recorded status code is still the zero value 0, which is below 400, so
  the response is stored: one \<^verbatim>\<open>Set\<close> under the derived key with the entry built from
  the captured body and headers. It is stored exactly as a success is: the handler that
  makes the same calls after a \<^verbatim>\<open>WriteHeader(200)\<close> leaves the adapter, its calls and
  the clock in the same state.
\<close>

theorem unset_status_is_stored:
  assumes "outcome_of (Middleware lib c next s w r) = Forwarded"
    and "filter is_DoWriteHeader (next (request_after (Middleware lib c next s w r))) = []"
  shows "let res = Middleware lib c next s w r;
             r' = request_after res;
             rw = capture lib next w r';
             now = last_reading (world_after res);
             entry = \<lparr>Value = body rw, Header = header (inner rw),
                       Expiration = Add now (ttl c), LastAccess = now, Frequency = 1\<rparr>
         in statusCode rw = 0
          \<and> filter is_CallSet (new_calls s (world_after res))
              = [CallSet (hash c r') (Bytes lib entry) (Add now (ttl c))]
          \<and> store (world_after res) (hash c r') = Some (Bytes lib entry, Add now (ttl c))
          \<and> world_after (Middleware lib c (\<lambda>q. DoWriteHeader 200 # next q) s w r)
              = world_after res"
proof -
  let ?res = "Middleware lib c next s w r"
  let ?r' = "request_after ?res"
  let ?rw = "capture lib next w ?r'"
  obtain s0 pre where m: "?res = forward lib c next (hash c ?r') s0 w ?r'"
    and pre: "calls s0 = calls s @ pre" "filter is_CallSet pre = []"
    using Forwarded_via_forward [OF assms(1)] by blast
  have w: "world_after ?res = world_after (forward lib c next (hash c ?r') s0 w ?r')"
    using m by simp
  have zero: "statusCode ?rw = 0"
    using statusCode_without_WriteHeader [of "next ?r'" lib] assms(2)
    by (simp add: capture_def ServeHTTP_rw_def filter_empty_conv)
  have "last_reading (world_after ?res) = clock s0 (ticks s0)"
    by (simp add: w forward_world zero adapter_Set_def last_reading_def)
  moreover have "new_calls s (world_after ?res)
      = pre @ [CallSet (hash c ?r')
          (Bytes lib \<lparr>Value = body ?rw, Header = header (inner ?rw),
             Expiration = Add (clock s0 (ticks s0)) (ttl c),
             LastAccess = clock s0 (ticks s0), Frequency = 1\<rparr>)
          (Add (clock s0 (ticks s0)) (ttl c))]"
    by (rule new_calls_append) (simp add: w forward_world zero adapter_Set_def pre)
  moreover have "store (world_after ?res) (hash c ?r')
      = Some (Bytes lib \<lparr>Value = body ?rw, Header = header (inner ?rw),
             Expiration = Add (clock s0 (ticks s0)) (ttl c),
             LastAccess = clock s0 (ticks s0), Frequency = 1\<rparr>,
           Add (clock s0 (ticks s0)) (ttl c))"
    by (simp add: w forward_world zero adapter_Set_def)
  ultimately show ?thesis
    using zero pre(2) explicit_success_same_world [OF assms] by (simp add: Let_def)
qed

theorem unset_status_is_stored_witness:
  "outcome_of (Middleware example_lib example_client silent_next empty_world example_writer
      (request ''GET'' ''/a'' [])) = Forwarded
   \<and> filter is_DoWriteHeader (silent_next (request_after (Middleware example_lib example_client
          silent_next empty_world example_writer (request ''GET'' ''/a'' [])))) = []
   \<and> (let res = Middleware example_lib example_client silent_next empty_world example_writer
              (request ''GET'' ''/a'' []);
          r' = request_after res;
          rw = capture example_lib silent_next example_writer r';
          now = last_reading (world_after res);
          entry = \<lparr>Value = body rw, Header = header (inner rw),
                    Expiration = Add now (ttl example_client), LastAccess = now, Frequency = 1\<rparr>
      in statusCode rw = 0
          \<and> filter is_CallSet (new_calls empty_world (world_after res))
              = [CallSet (hash example_client r') (Bytes example_lib entry)
                   (Add now (ttl example_client))]
          \<and> store (world_after res) (hash example_client r')
              = Some (Bytes example_lib entry, Add now (ttl example_client))
          \<and> world_after (Middleware example_lib example_client
                (\<lambda>q. DoWriteHeader 200 # silent_next q) empty_world example_writer
                (request ''GET'' ''/a'' []))
              = world_after res)"
proof -
  have h1: "outcome_of (Middleware example_lib example_client silent_next empty_world
      example_writer (request ''GET'' ''/a'' [])) = Forwarded"
    by code_simp
  have h2: "filter is_DoWriteHeader (silent_next (request_after (Middleware example_lib
      example_client silent_next empty_world example_writer (request ''GET'' ''/a'' [])))) = []"
    by (simp add: silent_next_def)
  show ?thesis
    using h1 h2 unset_status_is_stored [OF h1 h2] by (intro conjI)
qed

section \<open>Freshness and the hit path (C2, C9)\<close>

text \<open>
  C2. For a request with a cacheable method and no refresh parameter whose key has stored
  bytes \<open>b\<close>, and for every reading of the clock: the entry decoded from \<open>b\<close> is served
  from the cache if and only if its expiration is strictly after the current time, and
  the request is forwarded if and only if the expiration is at or before it; in
  particular an entry whose expiration equals the current time is forwarded.
\<close>

theorem fresh_iff_expiration_after_now:
  assumes "cacheableMethod c (Method r)"
    and "\<not> has_key (Query (URL r)) (refreshKey c)"
    and "store s (hash c (r\<lparr>URL := sortURLParams (URL r)\<rparr>)) = Some (b, e)"
  shows "(outcome_of (Middleware lib c next s w r) = ServedFromCache
            \<longleftrightarrow> clock s (ticks s) < Expiration (BytesToResponse lib b))
       \<and> (outcome_of (Middleware lib c next s w r) = Forwarded
            \<longleftrightarrow> Expiration (BytesToResponse lib b) \<le> clock s (ticks s))
       \<and> (Expiration (BytesToResponse lib b) = clock s (ticks s)
            \<longrightarrow> outcome_of (Middleware lib c next s w r) = Forwarded)"
proof (cases "After (Expiration (BytesToResponse lib b)) (clock s (ticks s))")
  case True
  have "outcome_of (Middleware lib c next s w r) = ServedFromCache"
    using Middleware_fresh [OF assms True] by (simp add: Let_def)
  then show ?thesis using True by (simp add: After_def)
next
  case False
  have "outcome_of (Middleware lib c next s w r) = Forwarded"
    using Middleware_stale [OF assms False] by (simp add: Let_def forward_outcome)
  then show ?thesis using False by (auto simp: After_def)
qed

lemma key_of_a: "hash example_client ((request ''GET'' ''/a'' [])\<lparr>URL :=
    sortURLParams (URL (request ''GET'' ''/a'' []))\<rparr>) = key_a"
  by code_simp

theorem fresh_iff_expiration_after_now_witness:
  "cacheableMethod example_client (Method (request ''GET'' ''/a'' []))
   \<and> \<not> has_key (Query (URL (request ''GET'' ''/a'' []))) (refreshKey example_client)
   \<and> store expiring_world (hash example_client ((request ''GET'' ''/a'' [])\<lparr>URL :=
        sortURLParams (URL (request ''GET'' ''/a'' []))\<rparr>)) = Some (''E'', 1000)
   \<and> Expiration (BytesToResponse example_lib ''E'') = clock expiring_world (ticks expiring_world)
   \<and> outcome_of (Middleware example_lib example_client example_next expiring_world
          example_writer (request ''GET'' ''/a'' [])) = Forwarded
   \<and> outcome_of (Middleware example_lib example_client example_next expiring_world
          example_writer (request ''GET'' ''/a'' [])) \<noteq> ServedFromCache"
proof -
  have h1: "cacheableMethod example_client (Method (request ''GET'' ''/a'' []))"
    by code_simp
  have h2: "\<not> has_key (Query (URL (request ''GET'' ''/a'' []))) (refreshKey example_client)"
    by code_simp
  have h3: "store expiring_world (hash example_client ((request ''GET'' ''/a'' [])\<lparr>URL :=
        sortURLParams (URL (request ''GET'' ''/a'' []))\<rparr>)) = Some (''E'', 1000)"
    by (simp add: key_of_a warm_world_def expiring_world_def)
  have h4: "Expiration (BytesToResponse example_lib ''E'')
      = clock expiring_world (ticks expiring_world)"
    by (simp add: BytesToResponse_def example_lib_def example_entry_def expiring_world_def
        warm_world_def empty_world_def)
  show ?thesis
    using h1 h2 h3 h4
      fresh_iff_expiration_after_now [OF h1 h2 h3, of example_lib example_next example_writer]
    by simp
qed

text \<open>
  C9. On every fresh hit the adapter returned an entry for the key, and the middleware
  makes exactly two adapter calls: the \<^verbatim>\<open>Get\<close> and one \<^verbatim>\<open>Set\<close> under the same key,
  with the expiration of the decoded entry, of the encoding of the entry that has the
  payload, headers and expiration of the decoded one, the current time as last access
  and the frequency incremented by 1 (in 64-bit arithmetic).
\<close>

theorem hit_updates_recency_and_frequency_only:
  assumes "outcome_of (Middleware lib c next s w r) = ServedFromCache"
  shows "let res = Middleware lib c next s w r;
             key = hash c (request_after res);
             old = BytesToResponse lib (fst (fst (adapter_Get s key)));
             now = last_reading (world_after res);
             new = \<lparr>Value = Value old, Header = Header old, Expiration = Expiration old,
                     LastAccess = now, Frequency = Frequency old + 1\<rparr>
         in snd (fst (adapter_Get s key))
          \<and> new_calls s (world_after res)
              = [CallGet key, CallSet key (Bytes lib new) (Expiration old)]
          \<and> store (world_after res) = (store s)(key \<mapsto> (Bytes lib new, Expiration old))"
proof -
  have cacheable: "cacheableMethod c (Method r)"
    using assms by (cases "cacheableMethod c (Method r)") (simp_all add: Middleware_bypass)
  have norefresh: "\<not> has_key (Query (URL r)) (refreshKey c)"
    using assms Middleware_refresh [OF cacheable]
    by (cases "has_key (Query (URL r)) (refreshKey c)") (simp_all add: Let_def forward_outcome)
  let ?r1 = "r\<lparr>URL := sortURLParams (URL r)\<rparr>"
  obtain b e where found: "store s (hash c ?r1) = Some (b, e)"
    using assms Middleware_absent [OF cacheable norefresh]
    by (cases "store s (hash c ?r1)") (auto simp: Let_def forward_outcome)
  have fresh: "After (Expiration (BytesToResponse lib b)) (clock s (ticks s))"
    using assms Middleware_stale [OF cacheable norefresh found]
    by (cases "After (Expiration (BytesToResponse lib b)) (clock s (ticks s))")
      (simp_all add: Let_def forward_outcome)
  note m = Middleware_fresh [OF cacheable norefresh found fresh]
  have r': "request_after (Middleware lib c next s w r) = ?r1"
    by (simp add: m Let_def)
  have got: "fst (adapter_Get s (hash c ?r1)) = (b, True)"
    by (simp add: adapter_Get_def found)
  have upd: "(BytesToResponse lib b)\<lparr>LastAccess := t, Frequency := f\<rparr>
      = \<lparr>Value = Value (BytesToResponse lib b), Header = Header (BytesToResponse lib b),
         Expiration = Expiration (BytesToResponse lib b), LastAccess = t, Frequency = f\<rparr>" for t f
    by simp
  have now: "last_reading (world_after (Middleware lib c next s w r)) = clock s (Suc (ticks s))"
    by (simp add: m Let_def adapter_Set_def last_reading_def)
  have calls: "new_calls s (world_after (Middleware lib c next s w r))
      = [CallGet (hash c ?r1),
         CallSet (hash c ?r1)
           (Bytes lib \<lparr>Value = Value (BytesToResponse lib b), Header = Header (BytesToResponse lib b),
              Expiration = Expiration (BytesToResponse lib b),
              LastAccess = clock s (Suc (ticks s)),
              Frequency = Frequency (BytesToResponse lib b) + 1\<rparr>)
           (Expiration (BytesToResponse lib b))]"
    by (rule new_calls_append) (simp add: m Let_def adapter_Set_def upd)
  have st: "store (world_after (Middleware lib c next s w r))
      = (store s)(hash c ?r1 \<mapsto>
           (Bytes lib \<lparr>Value = Value (BytesToResponse lib b), Header = Header (BytesToResponse lib b),
              Expiration = Expiration (BytesToResponse lib b),
              LastAccess = clock s (Suc (ticks s)),
              Frequency = Frequency (BytesToResponse lib b) + 1\<rparr>,
            Expiration (BytesToResponse lib b)))"
    by (simp add: m Let_def adapter_Set_def upd)
  show ?thesis
    unfolding Let_def r' got now calls st by simp
qed

theorem hit_updates_recency_and_frequency_only_witness:
  "outcome_of (Middleware example_lib example_client example_next warm_world example_writer
      (request ''GET'' ''/a'' [])) = ServedFromCache
   \<and> (let res = Middleware example_lib example_client example_next warm_world example_writer
              (request ''GET'' ''/a'' []);
          key = hash example_client (request_after res);
          old = BytesToResponse example_lib (fst (fst (adapter_Get warm_world key)));
          now = last_reading (world_after res);
          new = \<lparr>Value = Value old, Header = Header old, Expiration = Expiration old,
                  LastAccess = now, Frequency = Frequency old + 1\<rparr>
      in snd (fst (adapter_Get warm_world key))
          \<and> new_calls warm_world (world_after res)
              = [CallGet key, CallSet key (Bytes example_lib new) (Expiration old)]
          \<and> store (world_after res)
              = (store warm_world)(key \<mapsto> (Bytes example_lib new, Expiration old)))"
proof -
  have h: "outcome_of (Middleware example_lib example_client example_next warm_world
      example_writer (request ''GET'' ''/a'' [])) = ServedFromCache"
    by code_simp
  show ?thesis
    using h hit_updates_recency_and_frequency_only [OF h] by (intro conjI)
qed

section \<open>Query normalization and the key (C6)\<close>

lemma sort_cong_mset: "mset xs = mset ys \<Longrightarrow> sort xs = sort ys"
  by (rule properties_for_sort) simp_all

lemma has_key_values_of:
  assumes "well_formed m"
  shows "k \<in> fst ` set m \<longleftrightarrow> values_of m k \<noteq> []"
proof
  assume "k \<in> fst ` set m"
  then show "values_of m k \<noteq> []" by (rule values_of_nonempty [OF assms])
next
  assume "values_of m k \<noteq> []"
  then have "map_of m k \<noteq> None" by (cases "map_of m k") (simp_all add: values_of_def)
  then show "k \<in> fst ` set m" by (simp add: map_of_eq_None_iff)
qed

lemma Encode_cong:
  assumes "sort (map fst v) = sort (map fst v')"
    and "\<And>k. values_of v k = values_of v' k"
  shows "Encode v = Encode v'"
  using assms by (simp add: Encode_def)

lemma Encode_sorted_values_cong:
  assumes "well_formed q1" and "well_formed q2"
    and same: "\<forall>k. mset (values_of q1 k) = mset (values_of q2 k)"
  shows "Encode (map (\<lambda>(k, vs). (k, sort vs)) q1) = Encode (map (\<lambda>(k, vs). (k, sort vs)) q2)"
proof (rule Encode_cong)
  have "values_of q1 k = [] \<longleftrightarrow> values_of q2 k = []" for k
    using same by (metis mset_zero_iff)
  then have "k \<in> fst ` set q1 \<longleftrightarrow> k \<in> fst ` set q2" for k
    by (simp add: has_key_values_of [OF assms(1)] has_key_values_of [OF assms(2)])
  then have "set (map fst q1) = set (map fst q2)"
    by (simp add: set_eq_iff)
  moreover have "distinct (map fst q1)" and "distinct (map fst q2)"
    using assms(1,2) by (simp_all add: well_formed_def)
  ultimately have "sort (map fst q1) = sort (map fst q2)"
    by (intro sorted_distinct_set_unique) simp_all
  then show "sort (map fst (map (\<lambda>(k, vs). (k, sort vs)) q1))
      = sort (map fst (map (\<lambda>(k, vs). (k, sort vs)) q2))"
    unfolding map_fst_sorted_map .
next
  fix k
  show "values_of (map (\<lambda>(k, vs). (k, sort vs)) q1) k
      = values_of (map (\<lambda>(k, vs). (k, sort vs)) q2) k"
    unfolding values_of_sorted_map by (rule sort_cong_mset) (simp add: same)
qed

lemma RawQuery_sortURLParams:
  "RawQuery (sortURLParams u)
     = Join (concat (map (\<lambda>k. map (\<lambda>x. QueryEscape k @ ''='' @ QueryEscape x)
                                 (sort (values_of (Query u) k)))
                       (sort (map fst (Query u))))) ''&''"
  by (simp add: sortURLParams_def Encode_def values_of_sorted_map map_fst_sorted_map
      del: map_map)

lemma same_elsewhere:
  "r2 = r1\<lparr>URL := (URL r1)\<lparr>RawQuery := q\<rparr>\<rparr> \<Longrightarrow>
   r2\<lparr>URL := sortURLParams (URL r2)\<rparr>
     = r1\<lparr>URL := (URL r1)\<lparr>RawQuery :=
         Encode (map (\<lambda>(k, vs). (k, sort vs)) (Query (URL r2)))\<rparr>\<rparr>"
  by (simp add: sortURLParams_def)

text \<open>
  C6, as amended. For every request URL, normalization rewrites the query string as the
  parameters of the inbound query, as \<^verbatim>\<open>URL.Query\<close> parses it (none beyond 10000
  segments), ordered by name (bytewise; the names themselves, and so their case, are
  unchanged), each with its values sorted bytewise, every pair written as
  \<^verbatim>\<open>name=value\<close>, escaped, the pairs joined by \<^verbatim>\<open>&\<close>; parsing the rewritten query
  gives back exactly those parameters and values in that order. Consequently two
  requests that are equal but for their query strings, whose queries parse to the same
  values up to order for every parameter, derive the identical cache key.
\<close>

theorem normalization_sorts_values_and_parameters:
  "RawQuery (sortURLParams u)
     = Join (concat (map (\<lambda>k. map (\<lambda>x. QueryEscape k @ ''='' @ QueryEscape x)
                                 (sort (values_of (Query u) k)))
                       (sort (map fst (Query u))))) ''&''
   \<and> Query (sortURLParams u)
     = map (\<lambda>k. (k, sort (values_of (Query u) k))) (sort (map fst (Query u)))
   \<and> ((\<forall>k. mset (values_of (Query (URL r1)) k) = mset (values_of (Query (URL r2)) k))
        \<and> r2 = r1\<lparr>URL := (URL r1)\<lparr>RawQuery := RawQuery (URL r2)\<rparr>\<rparr>
      \<longrightarrow> hash c (r1\<lparr>URL := sortURLParams (URL r1)\<rparr>) = hash c (r2\<lparr>URL := sortURLParams (URL r2)\<rparr>))"
proof (intro conjI impI)
  show "RawQuery (sortURLParams u)
     = Join (concat (map (\<lambda>k. map (\<lambda>x. QueryEscape k @ ''='' @ QueryEscape x)
                                 (sort (values_of (Query u) k)))
                       (sort (map fst (Query u))))) ''&''"
    by (rule RawQuery_sortURLParams)
next
  show "Query (sortURLParams u)
     = map (\<lambda>k. (k, sort (values_of (Query u) k))) (sort (map fst (Query u)))"
    by (rule Query_sortURLParams)
next
  assume a: "(\<forall>k. mset (values_of (Query (URL r1)) k) = mset (values_of (Query (URL r2)) k))
        \<and> r2 = r1\<lparr>URL := (URL r1)\<lparr>RawQuery := RawQuery (URL r2)\<rparr>\<rparr>"
  have e: "Encode (map (\<lambda>(k, vs). (k, sort vs)) (Query (URL r1)))
      = Encode (map (\<lambda>(k, vs). (k, sort vs)) (Query (URL r2)))"
    using a by (intro Encode_sorted_values_cong Query_well_formed) simp
  have "r2\<lparr>URL := sortURLParams (URL r2)\<rparr>
      = r1\<lparr>URL := (URL r1)\<lparr>RawQuery := Encode (map (\<lambda>(k, vs). (k, sort vs)) (Query (URL r2)))\<rparr>\<rparr>"
    by (rule same_elsewhere) (rule conjunct2 [OF a])
  also have "\<dots> = r1\<lparr>URL := sortURLParams (URL r1)\<rparr>"
    by (simp add: sortURLParams_def e)
  finally show "hash c (r1\<lparr>URL := sortURLParams (URL r1)\<rparr>) = hash c (r2\<lparr>URL := sortURLParams (URL r2)\<rparr>)"
    by simp
qed

lemma Query_x21: "Query (URL (request ''GET'' ''/a'' ''x=2&x=1'')) = [(''x'', [''2'', ''1''])]"
  by code_simp

lemma Query_x12: "Query (URL (request ''GET'' ''/a'' ''x=1&x=2'')) = [(''x'', [''1'', ''2''])]"
  by code_simp

theorem normalization_sorts_values_and_parameters_witness:
  "((\<forall>k. mset (values_of (Query (URL (request ''GET'' ''/a'' ''x=2&x=1''))) k)
          = mset (values_of (Query (URL (request ''GET'' ''/a'' ''x=1&x=2''))) k))
      \<and> request ''GET'' ''/a'' ''x=1&x=2''
          = (request ''GET'' ''/a'' ''x=2&x=1'')\<lparr>URL := (URL (request ''GET'' ''/a'' ''x=2&x=1''))
              \<lparr>RawQuery := RawQuery (URL (request ''GET'' ''/a'' ''x=1&x=2''))\<rparr>\<rparr>)
   \<and> hash example_client ((request ''GET'' ''/a'' ''x=2&x=1'')\<lparr>URL :=
          sortURLParams (URL (request ''GET'' ''/a'' ''x=2&x=1''))\<rparr>)
     = hash example_client ((request ''GET'' ''/a'' ''x=1&x=2'')\<lparr>URL :=
          sortURLParams (URL (request ''GET'' ''/a'' ''x=1&x=2''))\<rparr>)"
proof -
  have h: "(\<forall>k. mset (values_of (Query (URL (request ''GET'' ''/a'' ''x=2&x=1''))) k)
          = mset (values_of (Query (URL (request ''GET'' ''/a'' ''x=1&x=2''))) k))
      \<and> request ''GET'' ''/a'' ''x=1&x=2''
          = (request ''GET'' ''/a'' ''x=2&x=1'')\<lparr>URL := (URL (request ''GET'' ''/a'' ''x=2&x=1''))
              \<lparr>RawQuery := RawQuery (URL (request ''GET'' ''/a'' ''x=1&x=2''))\<rparr>\<rparr>"
    unfolding Query_x21 Query_x12 by (simp add: values_of_def request_def)
  show ?thesis
    using h normalization_sorts_values_and_parameters [of _ "request ''GET'' ''/a'' ''x=2&x=1''"
        "request ''GET'' ''/a'' ''x=1&x=2''" example_client]
    by blast
qed

text \<open>
  C6 as stated, parameter order left untouched, fails on \<^verbatim>\<open>b=1&a=2\<close>: the parameters
  come in the order \<^verbatim>\<open>b\<close>, \<^verbatim>\<open>a\<close> and leave in the order \<^verbatim>\<open>a\<close>, \<^verbatim>\<open>b\<close>.
\<close>

theorem parameter_order_counterexample:
  "map fst (Query (URL (request ''GET'' ''/a'' ''b=1&a=2''))) = [''b'', ''a'']
   \<and> map fst (Query (sortURLParams (URL (request ''GET'' ''/a'' ''b=1&a=2'')))) = [''a'', ''b'']
   \<and> RawQuery (sortURLParams (URL (request ''GET'' ''/a'' ''b=1&a=2''))) = ''a=2&b=1''"
  by code_simp

section \<open>The query without one parameter\<close>

lemma values_of_delete_key:
  "values_of (delete_key k m) k' = (if k' = k then [] else values_of m k')"
  by (induction m) (auto simp: values_of_def delete_key_def)

lemma values_of_absent: "k \<notin> fst ` set m \<Longrightarrow> values_of m k = []"
  by (simp add: values_of_def map_of_eq_None_iff [THEN iffD2])

lemma values_of_tabulate:
  "values_of (map (\<lambda>k. (k, f k)) ks) k = (if k \<in> set ks then f k else [])"
  by (induction ks) (auto simp: values_of_def)

lemma values_of_Query_sortURLParams:
  "values_of (Query (sortURLParams u)) k = sort (values_of (Query u) k)"
proof (cases "k \<in> fst ` set (Query u)")
  case True
  then show ?thesis by (simp add: Query_sortURLParams values_of_tabulate)
next
  case False
  then show ?thesis by (simp add: Query_sortURLParams values_of_tabulate values_of_absent)
qed

lemma Encode_without_key:
  assumes same: "\<forall>k'. mset (values_of (Query u0) k') = mset (values_of (delete_key k (Query u)) k')"
  shows "Encode (delete_key k (Query (sortURLParams u)))
    = Encode (map (\<lambda>(k, vs). (k, sort vs)) (Query u0))"
proof (rule Encode_cong)
  let ?n = "Query (sortURLParams u)"
  have wf0: "well_formed (Query u0)" and wf: "well_formed (Query u)"
    by (rule Query_well_formed)+
  have norm: "well_formed (delete_key k ?n)"
    using delete_key_normal [of ?n k] Query_sortURLParams_normal [of u] by simp
  have empty_iff: "values_of (Query u0) k' = [] \<longleftrightarrow> k' = k \<or> values_of (Query u) k' = []" for k'
  proof -
    have "values_of (Query u0) k' = [] \<longleftrightarrow> values_of (delete_key k (Query u)) k' = []"
      using same by (metis mset_zero_iff)
    then show ?thesis by (simp add: values_of_delete_key)
  qed
  have "k' \<in> fst ` set (delete_key k ?n) \<longleftrightarrow> k' \<in> fst ` set (Query u0)" for k'
  proof -
    have "k' \<in> fst ` set (delete_key k ?n) \<longleftrightarrow> k' \<noteq> k \<and> k' \<in> fst ` set (Query u)"
      using has_key_sortURLParams [of u k'] by (auto simp: delete_key_def has_key_iff)
    also have "\<dots> \<longleftrightarrow> k' \<in> fst ` set (Query u0)"
      using empty_iff [of k'] by (simp add: has_key_values_of [OF wf] has_key_values_of [OF wf0])
    finally show ?thesis .
  qed
  then have "set (map fst (delete_key k ?n)) = set (map fst (Query u0))"
    by (simp add: set_eq_iff)
  moreover have "distinct (map fst (delete_key k ?n))" and "distinct (map fst (Query u0))"
    using norm wf0 by (simp_all add: well_formed_def)
  ultimately have "sort (map fst (delete_key k ?n)) = sort (map fst (Query u0))"
    by (intro sorted_distinct_set_unique) simp_all
  then show "sort (map fst (delete_key k ?n))
      = sort (map fst (map (\<lambda>(k, vs). (k, sort vs)) (Query u0)))"
    unfolding map_fst_sorted_map .
next
  fix k'
  show "values_of (delete_key k (Query (sortURLParams u))) k'
      = values_of (map (\<lambda>(k, vs). (k, sort vs)) (Query u0)) k'"
  proof (cases "k' = k")
    case True
    have "mset (values_of (Query u0) k) = {#}"
      using same by (simp add: values_of_delete_key)
    then show ?thesis
      unfolding values_of_sorted_map by (simp add: True values_of_delete_key)
  next
    case False
    have "mset (values_of (Query u) k') = mset (values_of (Query u0) k')"
      using same False by (simp add: values_of_delete_key)
    then have "sort (values_of (Query u) k') = sort (values_of (Query u0) k')"
      by (rule sort_cong_mset)
    then show ?thesis
      unfolding values_of_sorted_map
      by (simp add: False values_of_delete_key values_of_Query_sortURLParams)
  qed
qed

lemma refreshed_key_is_plain_key:
  assumes "\<forall>k. mset (values_of (Query (URL r0)) k)
              = mset (values_of (delete_key (refreshKey c) (Query (URL r))) k)"
    and "r0 = r\<lparr>URL := (URL r)\<lparr>RawQuery := RawQuery (URL r0)\<rparr>\<rparr>"
  shows "r\<lparr>URL := (sortURLParams (URL r))\<lparr>RawQuery :=
             Encode (delete_key (refreshKey c) (Query (sortURLParams (URL r))))\<rparr>\<rparr>
    = r0\<lparr>URL := sortURLParams (URL r0)\<rparr>"
proof -
  have "r0\<lparr>URL := sortURLParams (URL r0)\<rparr>
      = r\<lparr>URL := (URL r)\<lparr>RawQuery :=
          Encode (map (\<lambda>(k, vs). (k, sort vs)) (Query (URL r0)))\<rparr>\<rparr>"
    by (rule same_elsewhere) (rule assms(2))
  also have "\<dots> = r\<lparr>URL := (URL r)\<lparr>RawQuery :=
          Encode (delete_key (refreshKey c) (Query (sortURLParams (URL r))))\<rparr>\<rparr>"
    using Encode_without_key [OF assms(1)] by simp
  finally show ?thesis by (simp add: sortURLParams_def)
qed

section \<open>The refresh path (C3)\<close>

lemma not_has_key_delete_key: "\<not> has_key (delete_key k m) k"
  by (auto simp: has_key_iff delete_key_def)

text \<open>
  C3, as amended. For every request with a cacheable method whose query, as
  \<^verbatim>\<open>URL.Query\<close> parses it (to nothing beyond 10000 segments), carries the refresh
  parameter, whatever the adapter holds: the request is forwarded; the request \<open>r'\<close>
  the handler sees differs from the inbound one in the query string only, and its
  query holds the parameters of the normalized inbound query without the refresh
  parameter, so that \<open>r'\<close> is the very request, normalized, that stands for any
  request \<open>r0\<close> equal to the inbound one but for a query with the same parameters and
  values less the refresh parameter; the first adapter call is the \<^verbatim>\<open>Release\<close> of the
  key derived from \<open>r'\<close>; \<^verbatim>\<open>Get\<close> is never called; the outbound writer is the one the
  handler wrote to.
\<close>

theorem refresh_parameter_forces_miss:
  assumes "cacheableMethod c (Method r)"
    and "has_key (Query (URL r)) (refreshKey c)"
  shows "let res = Middleware lib c next s w r;
             r' = request_after res;
             rw = capture lib next w r'
         in outcome_of res = Forwarded
          \<and> r' = r\<lparr>URL := (URL r)\<lparr>RawQuery := RawQuery (URL r')\<rparr>\<rparr>
          \<and> Query (URL r') = delete_key (refreshKey c) (Query (sortURLParams (URL r)))
          \<and> \<not> has_key (Query (URL r')) (refreshKey c)
          \<and> ((\<forall>k. mset (values_of (Query (URL r0)) k)
                     = mset (values_of (delete_key (refreshKey c) (Query (URL r))) k))
                \<and> r0 = r\<lparr>URL := (URL r)\<lparr>RawQuery := RawQuery (URL r0)\<rparr>\<rparr>
              \<longrightarrow> r' = r0\<lparr>URL := sortURLParams (URL r0)\<rparr>)
          \<and> take 1 (new_calls s (world_after res)) = [CallRelease (hash c r')]
          \<and> filter is_CallGet (new_calls s (world_after res)) = []
          \<and> writer_after res = inner rw"
proof -
  let ?r2 = "r\<lparr>URL := (sortURLParams (URL r))\<lparr>RawQuery :=
                Encode (delete_key (refreshKey c) (Query (sortURLParams (URL r))))\<rparr>\<rparr>"
  have m: "Middleware lib c next s w r
      = forward lib c next (hash c ?r2) (adapter_Release s (hash c ?r2)) w ?r2"
    using Middleware_refresh [OF assms] by (simp add: Let_def)
  have r': "request_after (Middleware lib c next s w r) = ?r2"
    by (simp add: m forward_request)
  have q: "Query (URL ?r2) = delete_key (refreshKey c) (Query (sortURLParams (URL r)))"
    using Query_after_delete [where u = "URL r" and k = "refreshKey c"] by simp
  have shape: "?r2 = r\<lparr>URL := (URL r)\<lparr>RawQuery := RawQuery (URL ?r2)\<rparr>\<rparr>"
    by (simp add: sortURLParams_def)
  have plain: "(\<forall>k. mset (values_of (Query (URL r0)) k)
                     = mset (values_of (delete_key (refreshKey c) (Query (URL r))) k))
                \<and> r0 = r\<lparr>URL := (URL r)\<lparr>RawQuery := RawQuery (URL r0)\<rparr>\<rparr>
              \<longrightarrow> ?r2 = r0\<lparr>URL := sortURLParams (URL r0)\<rparr>"
    using refreshed_key_is_plain_key [of r0 c r] by blast
  have calls: "new_calls s (world_after (Middleware lib c next s w r))
      = CallRelease (hash c ?r2) # filter is_CallSet
          (new_calls s (world_after (Middleware lib c next s w r)))"
    by (simp add: m forward_world adapter_Set_def adapter_Release_def new_calls_def)
  have first: "take 1 (new_calls s (world_after (Middleware lib c next s w r)))
      = [CallRelease (hash c ?r2)]"
    by (subst calls) simp
  have noget: "filter is_CallGet (new_calls s (world_after (Middleware lib c next s w r))) = []"
    by (simp add: m forward_world adapter_Set_def adapter_Release_def new_calls_def)
  have out: "outcome_of (Middleware lib c next s w r) = Forwarded"
    by (simp add: m forward_outcome)
  have wr: "writer_after (Middleware lib c next s w r) = inner (capture lib next w ?r2)"
    by (simp add: m forward_writer)
  have nokey: "\<not> has_key (delete_key (refreshKey c) (Query (sortURLParams (URL r)))) (refreshKey c)"
    by (rule not_has_key_delete_key)
  show ?thesis
    unfolding Let_def r' q first noget out wr
    using shape plain nokey by blast
qed

lemma Query_of_a: "Query (URL (request ''GET'' ''/a'' [])) = []"
  by code_simp

lemma Query_of_refresh:
  "Query (URL (request ''GET'' ''/a'' ''_refresh=1'')) = [(''_refresh'', [''1''])]"
  by code_simp

theorem refresh_parameter_forces_miss_witness:
  "cacheableMethod example_client (Method (request ''GET'' ''/a'' ''_refresh=1''))
   \<and> has_key (Query (URL (request ''GET'' ''/a'' ''_refresh=1''))) (refreshKey example_client)
   \<and> (\<forall>k. mset (values_of (Query (URL (request ''GET'' ''/a'' []))) k)
            = mset (values_of (delete_key (refreshKey example_client)
                (Query (URL (request ''GET'' ''/a'' ''_refresh=1'')))) k))
   \<and> request ''GET'' ''/a'' []
       = (request ''GET'' ''/a'' ''_refresh=1'')\<lparr>URL :=
           (URL (request ''GET'' ''/a'' ''_refresh=1''))
             \<lparr>RawQuery := RawQuery (URL (request ''GET'' ''/a'' []))\<rparr>\<rparr>
   \<and> outcome_of (Middleware example_lib example_client example_next warm_world example_writer
         (request ''GET'' ''/a'' ''_refresh=1'')) = Forwarded
   \<and> request_after (Middleware example_lib example_client example_next warm_world
         example_writer (request ''GET'' ''/a'' ''_refresh=1''))
       = (request ''GET'' ''/a'' [])\<lparr>URL := sortURLParams (URL (request ''GET'' ''/a'' []))\<rparr>
   \<and> take 1 (new_calls warm_world (world_after (Middleware example_lib example_client
         example_next warm_world example_writer (request ''GET'' ''/a'' ''_refresh=1''))))
       = [CallRelease (hash example_client (request_after (Middleware example_lib example_client
           example_next warm_world example_writer (request ''GET'' ''/a'' ''_refresh=1''))))]
   \<and> filter is_CallGet (new_calls warm_world (world_after (Middleware example_lib
         example_client example_next warm_world example_writer
         (request ''GET'' ''/a'' ''_refresh=1'')))) = []"
proof -
  have h1: "cacheableMethod example_client (Method (request ''GET'' ''/a'' ''_refresh=1''))"
    by code_simp
  have h2: "has_key (Query (URL (request ''GET'' ''/a'' ''_refresh=1'')))
      (refreshKey example_client)"
    by code_simp
  have h3: "\<forall>k. mset (values_of (Query (URL (request ''GET'' ''/a'' []))) k)
            = mset (values_of (delete_key (refreshKey example_client)
                (Query (URL (request ''GET'' ''/a'' ''_refresh=1'')))) k)"
    unfolding Query_of_a Query_of_refresh
    by (simp add: values_of_def delete_key_def example_client_def)
  have h4: "request ''GET'' ''/a'' []
       = (request ''GET'' ''/a'' ''_refresh=1'')\<lparr>URL :=
           (URL (request ''GET'' ''/a'' ''_refresh=1''))
             \<lparr>RawQuery := RawQuery (URL (request ''GET'' ''/a'' []))\<rparr>\<rparr>"
    by (simp add: request_def)
  note t = refresh_parameter_forces_miss [OF h1 h2, of example_lib example_next warm_world
      example_writer "request ''GET'' ''/a'' []", unfolded Let_def]
  show ?thesis
    using h1 h2 h3 h4 t by blast
qed

text \<open>
  C3 as stated, for every request, fails on a method that is not cacheable: a
  \<^verbatim>\<open>POST /a?_refresh=1\<close> to a client that caches \<^verbatim>\<open>GET\<close> only carries the refresh
  parameter, is passed to the handler with the parameter still in its query, and no
  adapter call is made.
\<close>

theorem refresh_parameter_bypassed_counterexample:
  "has_key (Query (URL (request ''POST'' ''/a'' ''_refresh=1''))) (refreshKey example_client)
   \<and> outcome_of (Middleware example_lib example_client example_next warm_world example_writer
        (request ''POST'' ''/a'' ''_refresh=1'')) = Bypassed
   \<and> RawQuery (URL (request_after (Middleware example_lib example_client example_next warm_world
        example_writer (request ''POST'' ''/a'' ''_refresh=1''))))  = ''_refresh=1''
   \<and> new_calls warm_world (world_after (Middleware example_lib example_client example_next
        warm_world example_writer (request ''POST'' ''/a'' ''_refresh=1''))) = []"
  by code_simp

section \<open>The capturing wrapper (C7)\<close>

text \<open>
  C7 at a handler that writes its body in two chunks, \<^verbatim>\<open>hel\<close> then \<^verbatim>\<open>lo\<close>, after
  status 200: both chunks reach the outbound writer, but the wrapper's body is the last
  chunk only, and the entry passed to \<^verbatim>\<open>Set\<close> has the payload \<^verbatim>\<open>lo\<close>, not the
  concatenation \<^verbatim>\<open>hello\<close>.
\<close>

theorem chunked_body_keeps_last_chunk:
  "written (writer_after (Middleware example_lib example_client chunked_next empty_world
      example_writer (request ''GET'' ''/a'' []))) = [''hel'', ''lo'']
   \<and> body (capture example_lib chunked_next example_writer (request ''GET'' ''/a'' [])) = ''lo''
   \<and> calls (world_after (Middleware example_lib example_client chunked_next empty_world
        example_writer (request ''GET'' ''/a'' [])))
      = [CallGet key_a,
         CallSet key_a (Bytes example_lib \<lparr>Value = ''lo'', Header = [],
           Expiration = 10000000100, LastAccess = 100, Frequency = 1\<rparr>) 10000000100]"
  by code_simp

section \<open>A client without a refresh key (C8)\<close>

text \<open>
  C8 at the client \<^verbatim>\<open>NewClient\<close> builds without a refresh key, which leaves the field
  at the empty string, and an adapter holding a fresh entry for
  \<^verbatim>\<open>GET /a\<close>: \<^verbatim>\<open>GET /a\<close> is served from the cache, but \<^verbatim>\<open>GET /a?=1\<close>, whose query
  has a parameter with the empty name, takes the refresh path: the parameter is removed,
  the first adapter call is the \<^verbatim>\<open>Release\<close> of the key of \<^verbatim>\<open>GET /a\<close>, no \<^verbatim>\<open>Get\<close> is
  made and the request is forwarded.
\<close>

theorem unset_refresh_key_still_refreshes:
  "NewClient [ClientWithAdapter AnAdapter, ClientWithTTL 10000000000] = Inr plain_client
   \<and> refreshKey plain_client = []
   \<and> outcome_of (Middleware example_lib plain_client example_next warm_world example_writer
        (request ''GET'' ''/a'' [])) = ServedFromCache
   \<and> outcome_of (Middleware example_lib plain_client example_next warm_world example_writer
        (request ''GET'' ''/a'' ''=1'')) = Forwarded
   \<and> RawQuery (URL (request_after (Middleware example_lib plain_client example_next warm_world
        example_writer (request ''GET'' ''/a'' ''=1'')))) = []
   \<and> take 1 (calls (world_after (Middleware example_lib plain_client example_next warm_world
        example_writer (request ''GET'' ''/a'' ''=1'')))) = [CallRelease key_a]
   \<and> filter is_CallGet (calls (world_after (Middleware example_lib plain_client example_next
        warm_world example_writer (request ''GET'' ''/a'' ''=1'')))) = []"
proof -
  have "refreshKey plain_client = []
   \<and> outcome_of (Middleware example_lib plain_client example_next warm_world example_writer
        (request ''GET'' ''/a'' [])) = ServedFromCache
   \<and> outcome_of (Middleware example_lib plain_client example_next warm_world example_writer
        (request ''GET'' ''/a'' ''=1'')) = Forwarded
   \<and> RawQuery (URL (request_after (Middleware example_lib plain_client example_next warm_world
        example_writer (request ''GET'' ''/a'' ''=1'')))) = []
   \<and> take 1 (calls (world_after (Middleware example_lib plain_client example_next warm_world
        example_writer (request ''GET'' ''/a'' ''=1'')))) = [CallRelease key_a]
   \<and> filter is_CallGet (calls (world_after (Middleware example_lib plain_client example_next
        warm_world example_writer (request ''GET'' ''/a'' ''=1'')))) = []"
    by code_simp
  with NewClient_plain show ?thesis by (rule conjI)
qed

section \<open>Queries beyond the limit on parameters\<close>

text \<open>
  Beyond 10000 segments the query parses to nothing: a request whose query is
  \<^verbatim>\<open>_refresh=1\<close> followed by 10000 \<^verbatim>\<open>&\<close> does not carry the refresh parameter for the
  middleware, is normalized to \<^verbatim>\<open>GET /a\<close> and served from the cache; the query
  \<^verbatim>\<open>a=1\<close> followed by 10000 \<^verbatim>\<open>&\<close> is rewritten to the empty string.
\<close>

lemma count_list_replicate_same: "count_list (replicate n x) x = n"
  by (induction n) simp_all

lemma Query_crowded_refresh:
  "Query (URL (request ''GET'' ''/a'' (''_refresh=1'' @ replicate 10000 CHR ''&''))) = []"
  by (rule Query_beyond_limit) (simp add: request_def count_list_replicate_same)

lemma crowded_refresh_normalized:
  "(request ''GET'' ''/a'' (''_refresh=1'' @ replicate 10000 CHR ''&''))\<lparr>URL :=
      sortURLParams (URL (request ''GET'' ''/a'' (''_refresh=1'' @ replicate 10000 CHR ''&'')))\<rparr>
   = request ''GET'' ''/a'' []"
proof -
  have "RawQuery (sortURLParams
      (URL (request ''GET'' ''/a'' (''_refresh=1'' @ replicate 10000 CHR ''&'')))) = []"
    by (rule sortURLParams_beyond_limit) (simp add: request_def count_list_replicate_same)
  then show ?thesis by (simp add: request_def sortURLParams_def)
qed

lemma crowded_refresh_is_served_from_cache:
  "outcome_of (Middleware example_lib example_client example_next warm_world example_writer
      (request ''GET'' ''/a'' (''_refresh=1'' @ replicate 10000 CHR ''&''))) = ServedFromCache"
proof -
  let ?r = "request ''GET'' ''/a'' (''_refresh=1'' @ replicate 10000 CHR ''&'')"
  have h1: "cacheableMethod example_client (Method ?r)"
    by (simp add: cacheableMethod_def example_client_def request_def)
  have h2: "\<not> has_key (Query (URL ?r)) (refreshKey example_client)"
    by (simp only: Query_crowded_refresh) (simp add: has_key_def)
  have h3: "store warm_world (hash example_client (?r\<lparr>URL := sortURLParams (URL ?r)\<rparr>))
      = Some (''E'', 1000)"
    by (simp only: crowded_refresh_normalized) (simp add: warm_world_def key_a_def)
  have h4: "After (Expiration (BytesToResponse example_lib ''E''))
      (clock warm_world (ticks warm_world))"
    by (simp add: After_def BytesToResponse_def example_lib_def example_entry_def
        warm_world_def empty_world_def)
  show ?thesis
    using Middleware_fresh [OF h1 h2 h3 h4] by (simp add: Let_def)
qed

lemma crowded_query_is_emptied:
  "RawQuery (sortURLParams (URL (request ''GET'' ''/a'' (''a=1'' @ replicate 10000 CHR ''&''))))
     = []"
  by (rule sortURLParams_beyond_limit) (simp add: request_def count_list_replicate_same)

end
